theory Spec2Isabelle
  imports Main "HOL-Library.Word"
begin

section \<open>Arbitrary-precision integers and byte slices\<close>

text \<open>
  The signing code of package apos (apos\_signing.go) works on Go's \<open>math/big\<close> integers
  and on byte slices. A \<open>big.Int\<close> is an \<open>int\<close>; a byte is an \<open>8 word\<close>, so that the
  byte addition \<open>sig[64] + 35\<close> wraps as it does in Go; a \<open>uint64\<close> is a \<open>64 word\<close>.
\<close>

type_synonym byte = "8 word"

text \<open>\<open>big.Int.SetBytes\<close>: the slice read as a big-endian unsigned integer.\<close>

definition SetBytes :: "byte list \<Rightarrow> int" where
  "SetBytes buf = foldl (\<lambda>acc b. acc * 256 + uint b) 0 buf"

text \<open>\<open>big.Int.Bytes\<close>: the absolute value, big-endian, without leading zero bytes.\<close>

fun nat_bytes :: "nat \<Rightarrow> byte list" where
  "nat_bytes n = (if n = 0 then [] else nat_bytes (n div 256) @ [of_nat (n mod 256)])"

declare nat_bytes.simps [simp del]

definition Bytes :: "int \<Rightarrow> byte list" where
  "Bytes x = nat_bytes (nat \<bar>x\<bar>)"

text \<open>\<open>big.Int.BitLen\<close>: the length of the absolute value in bits; 0 for 0.\<close>

fun nat_bitlen :: "nat \<Rightarrow> nat" where
  "nat_bitlen n = (if n = 0 then 0 else Suc (nat_bitlen (n div 2)))"

declare nat_bitlen.simps [simp del]

definition BitLen :: "int \<Rightarrow> nat" where
  "BitLen x = nat_bitlen (nat \<bar>x\<bar>)"

text \<open>\<open>big.Int.Uint64\<close>: the low 64 bits of the absolute value.\<close>

definition Uint64 :: "int \<Rightarrow> 64 word" where
  "Uint64 x = word_of_int \<bar>x\<bar>"

text \<open>\<open>big.Int.Sign\<close> and \<open>big.Int.Cmp\<close>: -1, 0 or +1.\<close>

definition Sign :: "int \<Rightarrow> int" where
  "Sign x = (if x < 0 then - 1 else if x = 0 then 0 else 1)"

definition big_Cmp :: "int \<Rightarrow> int \<Rightarrow> int" where
  "big_Cmp x y = (if x < y then - 1 else if x = y then 0 else 1)"

text \<open>
  Go's \<open>copy(dst[lo:lo+len(src)], src)\<close> on a destination that is long enough: the bytes
  of \<open>src\<close> overwrite \<open>dst\<close> from index \<open>lo\<close>.
\<close>

definition copy_at :: "byte list \<Rightarrow> nat \<Rightarrow> byte list \<Rightarrow> byte list" where
  "copy_at dst lo src = take lo dst @ src @ drop (lo + length src) dst"

text \<open>
  \<open>copy(arr[:], src)\<close> into a zeroed array of \<open>n\<close> bytes (\<open>types.Hash\<close> has 32,
  \<open>types.Address\<close> 20): at most \<open>n\<close> bytes are copied, the rest stays zero.
\<close>

definition copy_array :: "nat \<Rightarrow> byte list \<Rightarrow> byte list" where
  "copy_array n src = take n src @ replicate (n - length src) 0"

section \<open>Errors and panics\<close>

text \<open>
  Every error return and every panic of the code is a value. \<open>ErrSign\<close> and
  \<open>ErrEcrecover\<close> carry the error of the crypto library, which \<open>sign\<close> and
  \<open>recoverPlain\<close> hand on unchanged.
\<close>

datatype error =
    ErrInvalidSig
  | ErrInvalidChainId
  | ErrEmptyKey
  | ErrEmptyHash
  | ErrWrongSize nat
  | ErrInvalidPublicKey
  | ErrSign string
  | ErrEcrecover string
  | PanicNotInitialized
  | PanicNilChainId
  | PanicNilPointer
  | PanicSliceBounds
  | PanicEphemeralNotInitialized

section \<open>The configuration read through \<open>Config()\<close>\<close>

text \<open>
  Modelled from the spec: the fields \<open>chainId\<close> and \<open>chainIdMul\<close> that the signing code
  reads through \<open>Config()\<close> are not declared in the sources at hand. The spec names them
  "chainId, derived chainIdMultiplier" and gives the bias as \<open>chainId*2 + 35\<close>.
  \<open>chainId\<close> is a pointer the code tests against nil, hence an option.
\<close>

record chain_config =
  chainId :: "int option"
  chainIdMul :: int

definition derived_config :: "int \<Rightarrow> chain_config" where
  "derived_config c = \<lparr>chainId = Some c, chainIdMul = c * 2\<rparr>"

section \<open>The external primitives\<close>

text \<open>
  The payloads handed to \<open>common.MsgpHash\<close>, as the struct literals of the two
  \<open>hash\<close> methods: round, step, and the quantity or the value.
\<close>

datatype hashable =
    CredentialSigForHash "64 word" "64 word" "byte list"
  | EphemeralSigForHash "64 word" "64 word" "byte list"

text \<open>
  The functions of \<open>mjoy.io/utils/crypto\<close> and \<open>mjoy.io/common\<close> that the signing code
  calls are not in the sources at hand; they are parameters of the model. \<open>'k\<close> is the
  type of private keys.
\<close>

record 'k crypto =
  Keccak256 :: "byte list \<Rightarrow> byte list"
  ValidateSignatureValues :: "byte \<Rightarrow> int \<Rightarrow> int \<Rightarrow> bool \<Rightarrow> bool"
  crypto_Sign :: "byte list \<Rightarrow> 'k \<Rightarrow> string + byte list"
  Ecrecover :: "byte list \<Rightarrow> byte list \<Rightarrow> string + byte list"
  MsgpHash :: "hashable \<Rightarrow> string + byte list"

section \<open>Signature\<close>

record Signature =
  R :: "int option"
  S :: "int option"
  V :: "int option"

definition init :: "Signature" where
  "init = \<lparr>R = Some 0, S = Some 0, V = Some 0\<rparr>"

definition checkObj :: "Signature \<Rightarrow> error option" where
  "checkObj s = (if R s = None \<or> S s = None \<or> V s = None
                 then Some PanicNotInitialized else None)"

text \<open>
  \<open>get\<close> writes R, S and V into the receiver. Both of its failures (the panic of
  \<open>checkObj\<close>, the wrong length) come before the first write, so a failure leaves the
  receiver as it was and the model returns the written signature only on success.
\<close>

definition get :: "chain_config \<Rightarrow> Signature \<Rightarrow> byte list \<Rightarrow> error + Signature" where
  "get cfg s sig =
     (case checkObj s of
        Some e \<Rightarrow> Inl e
      | None \<Rightarrow>
          if length sig \<noteq> 65 then Inl (ErrWrongSize (length sig))
          else
            let r = SetBytes (take 32 sig);
                sv = SetBytes (take 32 (drop 32 sig))
            in (case chainId cfg of
                  None \<Rightarrow> Inr \<lparr>R = Some r, S = Some sv, V = Some (SetBytes [sig ! 64 + 27])\<rparr>
                | Some c \<Rightarrow>
                    if Sign c \<noteq> 0
                    then Inr \<lparr>R = Some r, S = Some sv,
                              V = Some (uint (sig ! 64 + 35) + chainIdMul cfg)\<rparr>
                    else Inr \<lparr>R = Some r, S = Some sv, V = Some (SetBytes [sig ! 64 + 27])\<rparr>))"

text \<open>
  The chain-id bias removed from V, as \<open>toBytes\<close> and the two \<open>sender\<close> methods do
  it: \<open>V - chainIdMul - 35\<close> under a non-zero chain id, \<open>V - 27\<close> otherwise.
\<close>

definition unbias :: "chain_config \<Rightarrow> int \<Rightarrow> int \<Rightarrow> int" where
  "unbias cfg c v = (if Sign c \<noteq> 0 then v - chainIdMul cfg - 35 else v - 27)"

text \<open>
  \<open>toBytes\<close>: \<open>Inr None\<close> is the nil slice. \<open>Config().chainId.Sign()\<close> has no nil
  test here and panics on nil. The slice \<open>sig[32-len(rb):32]\<close> is out of bounds, and
  panics, when \<open>rb\<close> has more than 32 bytes; the slice \<open>sig[64-len(sb):64]\<close> only when
  \<open>sb\<close> has more than 64: an S of 33 to 64 bytes is copied over the end of R.
\<close>

definition toBytes :: "'k crypto \<Rightarrow> chain_config \<Rightarrow> Signature \<Rightarrow> error + byte list option" where
  "toBytes env cfg s =
     (case checkObj s of
        Some e \<Rightarrow> Inl e
      | None \<Rightarrow>
          (case chainId cfg of
             None \<Rightarrow> Inl PanicNilPointer
           | Some c \<Rightarrow>
               let r = the (R s); sv = the (S s);
                   vb = (ucast (Uint64 (unbias cfg c (the (V s)))) :: byte)
               in if \<not> ValidateSignatureValues env vb r sv True then Inr None
                  else
                    let rb = Bytes r; sb = Bytes sv
                    in if 32 < length rb then Inl PanicSliceBounds
                       else if 64 < length sb then Inl PanicSliceBounds
                       else Inr (Some ((copy_at (copy_at (replicate 65 0) (32 - length rb) rb)
                                          (64 - length sb) sb) [64 := vb]))))"

text \<open>A slice as the bytes \<open>Keccak256\<close> reads: the nil slice is empty.\<close>

definition slice_bytes :: "byte list option \<Rightarrow> byte list" where
  "slice_bytes sl = (case sl of None \<Rightarrow> [] | Some bs \<Rightarrow> bs)"

definition hashBytes :: "'k crypto \<Rightarrow> chain_config \<Rightarrow> Signature \<Rightarrow> error + byte list" where
  "hashBytes env cfg s =
     (case toBytes env cfg s of
        Inl e \<Rightarrow> Inl e
      | Inr srcBytes \<Rightarrow> Inr (Keccak256 env (slice_bytes srcBytes)))"

definition Hash :: "'k crypto \<Rightarrow> chain_config \<Rightarrow> Signature \<Rightarrow> error + byte list" where
  "Hash env cfg s =
     (case toBytes env cfg s of
        Inl e \<Rightarrow> Inl e
      | Inr srcBytes \<Rightarrow> Inr (copy_array 32 (Keccak256 env (slice_bytes srcBytes))))"

section \<open>Recovering the sender\<close>

text \<open>
  \<open>deriveChainId\<close>: up to 64 bits the arithmetic is on \<open>uint64\<close>, where \<open>v - 35\<close>
  wraps; beyond, on big integers. \<open>big.Int.Div\<close> is Euclidean division, which for the
  divisor 2 is \<open>div\<close> on \<open>int\<close>.
\<close>

definition deriveChainId :: "int \<Rightarrow> int" where
  "deriveChainId v =
     (if BitLen v \<le> 64
      then (let w = Uint64 v
            in if w = 27 \<or> w = 28 then 0 else uint ((w - 35) div 2))
      else (v - 35) div 2)"

text \<open>
  \<open>recoverPlain\<close>. The two \<open>copy\<close>s are those of \<open>toBytes\<close>, with the same bounds. The
  slice \<open>crypto.Keccak256(pub[1:])[12:]\<close> panics when the digest has fewer than 12 bytes;
  the digest is a parameter here, so that branch is kept.
\<close>

definition recoverPlain ::
    "'k crypto \<Rightarrow> byte list \<Rightarrow> int \<Rightarrow> int \<Rightarrow> int \<Rightarrow> bool \<Rightarrow> error + byte list" where
  "recoverPlain env sighash r sv vb homestead =
     (if 8 < BitLen vb then Inl ErrInvalidSig
      else
        let v = (ucast (Uint64 vb) :: byte)
        in if \<not> ValidateSignatureValues env v r sv homestead then Inl ErrInvalidSig
           else
             let rb = Bytes r; sb = Bytes sv
             in if 32 < length rb then Inl PanicSliceBounds
                else if 64 < length sb then Inl PanicSliceBounds
                else
                  let sig = (copy_at (copy_at (replicate 65 0) (32 - length rb) rb)
                               (64 - length sb) sb) [64 := v]
                  in (case Ecrecover env sighash sig of
                        Inl e \<Rightarrow> Inl (ErrEcrecover e)
                      | Inr pub \<Rightarrow>
                          if length pub = 0 then Inl ErrInvalidPublicKey
                          else if hd pub \<noteq> 4 then Inl ErrInvalidPublicKey
                          else
                            let h = Keccak256 env (tl pub)
                            in if length h < 12 then Inl PanicSliceBounds
                               else Inr (copy_array 20 (drop 12 h))))"

section \<open>CredentialSign: the long-term signature\<close>

record CredentialSign =
  Sig :: Signature
  Round :: "64 word"
  Step :: "64 word"

text \<open>The zero \<open>types.Hash\<close>, which \<open>hash\<close> returns when \<open>MsgpHash\<close> fails.\<close>

definition zero_hash :: "byte list" where
  "zero_hash = replicate 32 0"

definition CredentialSign_hash :: "'k crypto \<Rightarrow> CredentialSign \<Rightarrow> byte list" where
  "CredentialSign_hash env cret =
     (case MsgpHash env (CredentialSigForHash (Round cret) (Step cret) [0]) of
        Inl err \<Rightarrow> zero_hash
      | Inr hash \<Rightarrow> hash)"

text \<open>
  \<open>sign\<close> returns the components and writes them into the credential: the result is
  the pair of what is returned and the credential afterwards. \<open>prv\<close> is a pointer,
  \<open>None\<close> when nil.
\<close>

definition CredentialSign_sign ::
    "'k crypto \<Rightarrow> chain_config \<Rightarrow> 'k option \<Rightarrow> CredentialSign
       \<Rightarrow> (error + int \<times> int \<times> int) \<times> CredentialSign" where
  "CredentialSign_sign env cfg prv cret =
     (case prv of
        None \<Rightarrow> (Inl ErrEmptyKey, cret)
      | Some key \<Rightarrow>
          let hash = CredentialSign_hash env cret
          in if hash = zero_hash then (Inl ErrEmptyHash, cret)
             else (case crypto_Sign env hash key of
                     Inl err \<Rightarrow> (Inl (ErrSign err), cret)
                   | Inr sig \<Rightarrow>
                       (case get cfg (Sig cret) sig of
                          Inl err \<Rightarrow> (Inl err, cret)
                        | Inr s' \<Rightarrow>
                            (Inr (the (R s'), the (S s'), the (V s')),
                             cret\<lparr>Sig := s'\<rparr>))))"

definition CredentialSign_sender ::
    "'k crypto \<Rightarrow> chain_config \<Rightarrow> CredentialSign \<Rightarrow> error + byte list" where
  "CredentialSign_sender env cfg cret =
     (case checkObj (Sig cret) of
        Some e \<Rightarrow> Inl e
      | None \<Rightarrow>
          (case chainId cfg of
             None \<Rightarrow> Inl PanicNilChainId
           | Some c \<Rightarrow>
               let v = the (V (Sig cret))
               in if big_Cmp (deriveChainId v) c \<noteq> 0 then Inl ErrInvalidChainId
                  else recoverPlain env (CredentialSign_hash env cret)
                         (the (R (Sig cret))) (the (S (Sig cret))) (unbias cfg c v) True))"



section \<open>EphemeralSign: the per-step signature\<close>

record EphemeralSign =
  ESig :: Signature
  round :: "64 word"
  step :: "64 word"
  val :: "byte list option"

text \<open>\<open>hash\<close> panics on a nil \<open>val\<close>.\<close>

definition EphemeralSign_hash :: "'k crypto \<Rightarrow> EphemeralSign \<Rightarrow> error + byte list" where
  "EphemeralSign_hash env esig =
     (case val esig of
        None \<Rightarrow> Inl PanicEphemeralNotInitialized
      | Some v \<Rightarrow>
          (case MsgpHash env (EphemeralSigForHash (round esig) (step esig) v) of
             Inl err \<Rightarrow> Inr zero_hash
           | Inr hash \<Rightarrow> Inr hash))"

definition EphemeralSign_sign ::
    "'k crypto \<Rightarrow> chain_config \<Rightarrow> 'k option \<Rightarrow> EphemeralSign
       \<Rightarrow> (error + int \<times> int \<times> int) \<times> EphemeralSign" where
  "EphemeralSign_sign env cfg prv esig =
     (case prv of
        None \<Rightarrow> (Inl ErrEmptyKey, esig)
      | Some key \<Rightarrow>
          (case EphemeralSign_hash env esig of
             Inl p \<Rightarrow> (Inl p, esig)
           | Inr hash \<Rightarrow>
               if hash = zero_hash then (Inl ErrEmptyHash, esig)
               else (case crypto_Sign env hash key of
                       Inl err \<Rightarrow> (Inl (ErrSign err), esig)
                     | Inr sig \<Rightarrow>
                         (case get cfg (ESig esig) sig of
                            Inl err \<Rightarrow> (Inl err, esig)
                          | Inr s' \<Rightarrow>
                              (Inr (the (R s'), the (S s'), the (V s')),
                               esig\<lparr>ESig := s'\<rparr>)))))"

section \<open>The protocol parameters (config.go)\<close>

text \<open>
  The \<open>*big.Int\<close> fields are pointers, nil in the zero value of the struct, hence
  options. \<open>DelayBlock\<close> and \<open>DelayVerify\<close> are Go \<open>int\<close>s that are only stored.
\<close>

record Config =
  Lookback :: "32 word"
  PrPrecision :: "int option"
  PrLeader :: "int option"
  PrVerifier :: "int option"
  MaxBBASteps :: "32 word"
  MaxNumPerRound :: "32 word"
  PrH :: "int option"
  DelayBlock :: int
  DelayVerify :: int

definition setDefault :: "Config \<Rightarrow> Config" where
  "setDefault c = c\<lparr>
     Lookback := 100,
     PrPrecision := Some 10,
     PrLeader := Some 1000000000,
     PrVerifier := Some 5000000000,
     MaxBBASteps := 180,
     MaxNumPerRound := 10,
     PrH := Some 34,
     DelayBlock := 60,
     DelayVerify := 10\<rparr>"

text \<open>The zero value of the struct, on which \<open>setDefault\<close> is first called.\<close>

definition zero_Config :: "Config" where
  "zero_Config = \<lparr>Lookback = 0, PrPrecision = None, PrLeader = None, PrVerifier = None,
     MaxBBASteps = 0, MaxNumPerRound = 0, PrH = None, DelayBlock = 0, DelayVerify = 0\<rparr>"

text \<open>
  The invariant in the spec's words: every probability numerator is at most
  \<open>PrPrecision\<close>, and \<open>MaxBBASteps\<close> is positive. A nil field satisfies nothing.
\<close>

definition numerator_le :: "int option \<Rightarrow> int option \<Rightarrow> bool" where
  "numerator_le n p = (case n of None \<Rightarrow> False
                       | Some x \<Rightarrow> (case p of None \<Rightarrow> False | Some y \<Rightarrow> x \<le> y))"

definition Config_invariant :: "Config \<Rightarrow> bool" where
  "Config_invariant c =
     (numerator_le (PrLeader c) (PrPrecision c) \<and>
      numerator_le (PrVerifier c) (PrPrecision c) \<and>
      numerator_le (PrH c) (PrPrecision c) \<and>
      0 < MaxBBASteps c)"

text \<open>
  What the defaults do satisfy, with \<open>PrPrecision\<close> read as a number of decimal
  digits: the numerators are bounded by \<open>10 ^ PrPrecision\<close>.
\<close>

definition precision_scale :: "int option \<Rightarrow> int option" where
  "precision_scale p = (case p of None \<Rightarrow> None | Some d \<Rightarrow> Some (10 ^ nat d))"

definition Config_digits_invariant :: "Config \<Rightarrow> bool" where
  "Config_digits_invariant c =
     (numerator_le (PrLeader c) (precision_scale (PrPrecision c)) \<and>
      numerator_le (PrVerifier c) (precision_scale (PrPrecision c)) \<and>
      numerator_le (PrH c) (precision_scale (PrPrecision c)) \<and>
      0 < MaxBBASteps c)"

section \<open>The BBA state machine\<close>

text \<open>
  Modelled from the spec: the state machine of the agreement is not in the sources at
  hand (only the tests that start it are). By the spec a participant goes
  \<open>Propose\<close>, \<open>Step 1\<close>, ..., \<open>Step maxBBASteps\<close> and ends in \<open>Committed v\<close> or
  \<open>FallbackCommitted\<close>: at a step it commits \<open>v\<close> when it observes a quorum for \<open>v\<close>;
  without one it advances to the next step, and commits the fallback value when step
  \<open>maxBBASteps\<close> is reached. What a participant observes at step \<open>i\<close> is the input
  \<open>quorum i\<close>. The result is the step at which the participant ends, and its outcome.
\<close>

datatype 'v bba_outcome = Committed 'v | FallbackCommitted

function bba_steps :: "nat \<Rightarrow> (nat \<Rightarrow> 'v option) \<Rightarrow> nat \<Rightarrow> nat \<times> 'v bba_outcome" where
  "bba_steps maxBBASteps quorum i =
     (case quorum i of
        Some v \<Rightarrow> (i, Committed v)
      | None \<Rightarrow>
          if maxBBASteps \<le> i then (i, FallbackCommitted)
          else bba_steps maxBBASteps quorum (Suc i))"
  by pat_completeness auto
termination
  by (relation "measure (\<lambda>(k, q, i). k - i)") auto

declare bba_steps.simps [simp del]

text \<open>A round: after \<open>Propose\<close> the participant enters step 1.\<close>

definition bba_round :: "nat \<Rightarrow> (nat \<Rightarrow> 'v option) \<Rightarrow> nat \<times> 'v bba_outcome" where
  "bba_round maxBBASteps quorum = bba_steps maxBBASteps quorum 1"

section \<open>A sample instance of the external primitives\<close>

text \<open>
  To run the model on concrete inputs the parameters need values. This instance is not
  the crypto library: the digest keeps the first 32 bytes of its input, a private key
  is a number below 256 that signs every digest as \<open>R = key\<close>, \<open>S = 1\<close> with recovery
  byte 0, recovery returns the marker 4 followed by the 32 bytes of R, and validation
  checks \<open>1 \<le> R, S < 2 ^ 256\<close> and a recovery byte of 0 or 1. \<open>MsgpHash\<close> fails on
  round 0 and gives a fixed non-zero digest otherwise.
\<close>

definition sample_MsgpHash :: "hashable \<Rightarrow> string + byte list" where
  "sample_MsgpHash p =
     (case p of
        CredentialSigForHash r s q \<Rightarrow> if r = 0 then Inl ''encode'' else Inr (replicate 31 0 @ [1])
      | EphemeralSigForHash r s v \<Rightarrow> if r = 0 then Inl ''encode'' else Inr (replicate 31 0 @ [2]))"

definition sample_crypto :: "nat crypto" where
  "sample_crypto = \<lparr>
     Keccak256 = (\<lambda>bs. copy_array 32 bs),
     ValidateSignatureValues =
       (\<lambda>v r s homestead. 1 \<le> r \<and> r < 2 ^ 256 \<and> 1 \<le> s \<and> s < 2 ^ 256 \<and> v \<le> 1),
     crypto_Sign = (\<lambda>hash key. Inr (replicate 31 0 @ [of_nat key] @ replicate 31 0 @ [1] @ [0])),
     Ecrecover = (\<lambda>hash sig. Inr (4 # take 32 sig)),
     MsgpHash = sample_MsgpHash\<rparr>"

section \<open>Big integers and byte slices: basic facts\<close>

lemma SetBytes_Nil: "SetBytes [] = 0"
  by (simp add: SetBytes_def)

lemma SetBytes_snoc: "SetBytes (xs @ [b]) = SetBytes xs * 256 + uint b"
  by (simp add: SetBytes_def)

lemma SetBytes_nonneg: "0 \<le> SetBytes xs"
  by (induction xs rule: rev_induct) (simp_all add: SetBytes_Nil SetBytes_snoc)

lemma SetBytes_append: "SetBytes (xs @ ys) = SetBytes xs * 256 ^ length ys + SetBytes ys"
proof (induction ys rule: rev_induct)
  case Nil
  show ?case by (simp add: SetBytes_Nil)
next
  case (snoc y ys)
  have "SetBytes (xs @ ys @ [y]) = SetBytes ((xs @ ys) @ [y])" by simp
  also have "\<dots> = SetBytes (xs @ ys) * 256 + uint y" by (rule SetBytes_snoc)
  finally show ?case using snoc by (simp add: SetBytes_snoc algebra_simps)
qed

lemma SetBytes_zeros: "SetBytes (replicate n 0) = 0"
  by (induction n) (simp_all add: SetBytes_def)

lemma SetBytes_pad: "SetBytes (replicate n 0 @ bs) = SetBytes bs"
  by (simp add: SetBytes_append SetBytes_zeros)

lemma SetBytes_nat_bytes: "SetBytes (nat_bytes n) = int n"
proof (induction n rule: nat_bytes.induct)
  case (1 n)
  show ?case
  proof (cases "n = 0")
    case True
    then show ?thesis by (simp add: nat_bytes.simps SetBytes_Nil)
  next
    case False
    have m: "n mod 256 < 256" by simp
    have "uint (of_nat (n mod 256) :: byte) = int (n mod 256)"
      using m by (simp add: uint_nat unat_of_nat)
    with False 1 show ?thesis
      by (subst nat_bytes.simps) (simp add: SetBytes_snoc zdiv_int zmod_int)
  qed
qed

lemma length_nat_bytes: "n < 256 ^ k \<Longrightarrow> length (nat_bytes n) \<le> k"
proof (induction n arbitrary: k rule: nat_bytes.induct)
  case (1 n)
  show ?case
  proof (cases "n = 0")
    case True
    then show ?thesis by (simp add: nat_bytes.simps)
  next
    case False
    with 1(2) obtain j where k: "k = Suc j" by (cases k) auto
    with 1(2) have "n div 256 < 256 ^ j"
      by (simp add: less_mult_imp_div_less)
    with 1(1) False have "length (nat_bytes (n div 256)) \<le> j" by blast
    with False k show ?thesis by (subst nat_bytes.simps) simp
  qed
qed

lemma nat_bitlen_le: "nat_bitlen n \<le> k \<longleftrightarrow> n < 2 ^ k"
proof (induction n arbitrary: k rule: nat_bitlen.induct)
  case (1 n)
  show ?case
  proof (cases "n = 0")
    case True
    then show ?thesis by (simp add: nat_bitlen.simps)
  next
    case False
    show ?thesis
    proof (cases k)
      case 0
      with False show ?thesis by (subst nat_bitlen.simps) simp
    next
      case (Suc j)
      have "nat_bitlen (n div 2) \<le> j \<longleftrightarrow> n div 2 < 2 ^ j"
        using 1 False by blast
      moreover have "n div 2 < 2 ^ j \<longleftrightarrow> n < 2 ^ Suc j"
        by auto
      ultimately show ?thesis using False Suc
        by (subst nat_bitlen.simps) simp
    qed
  qed
qed

lemma BitLen_le: "BitLen x \<le> k \<longleftrightarrow> \<bar>x\<bar> < 2 ^ k"
proof -
  have "nat \<bar>x\<bar> < 2 ^ k \<longleftrightarrow> \<bar>x\<bar> < 2 ^ k"
    by (simp add: nat_less_iff)
  then show ?thesis by (simp add: BitLen_def nat_bitlen_le)
qed

text \<open>
  The 65 bytes that \<open>toBytes\<close> and \<open>recoverPlain\<close> assemble by two \<open>copy\<close>s and an
  assignment are R and S, each left-padded with zeros to 32 bytes, and the recovery byte.
\<close>

lemma sig_layout:
  assumes "length rb \<le> 32" "length sb \<le> 32"
  shows "(copy_at (copy_at (replicate 65 0) (32 - length rb) rb) (64 - length sb) sb) [64 := vb]
         = replicate (32 - length rb) 0 @ rb @ replicate (32 - length sb) 0 @ sb @ [vb]"
proof -
  have a: "copy_at (replicate 65 0) (32 - length rb) rb
           = replicate (32 - length rb) 0 @ rb @ replicate 33 (0::byte)"
    using assms(1) by (simp add: copy_at_def min_def)
  have b: "copy_at (replicate (32 - length rb) 0 @ rb @ replicate 33 (0::byte)) (64 - length sb) sb
           = replicate (32 - length rb) 0 @ rb @ replicate (32 - length sb) 0 @ sb @ [0]"
    using assms by (auto simp add: copy_at_def min_def)
  have c: "(xs @ [0::byte]) [length xs := vb] = xs @ [vb]" for xs
    by simp
  have d: "length (replicate (32 - length rb) (0::byte) @ rb @ replicate (32 - length sb) 0 @ sb) = 64"
    using assms by simp
  show ?thesis
    unfolding a b
    using c [of "replicate (32 - length rb) (0::byte) @ rb @ replicate (32 - length sb) 0 @ sb"]
    unfolding d by simp
qed

lemma SetBytes_single: "SetBytes [b] = uint b"
  by (simp add: SetBytes_def)

lemma Uint64_small: "0 \<le> x \<Longrightarrow> x < 2 ^ 64 \<Longrightarrow> uint (Uint64 x) = x"
  by (simp add: Uint64_def uint_word_of_int take_bit_int_eq_self)

lemma uint_bit_plus: "b \<le> 220 \<Longrightarrow> uint (b + 35 :: byte) = uint b + 35"
  by (simp add: uint_plus_if' word_le_def)

lemma uint_bit_plus27: "b \<le> 228 \<Longrightarrow> uint (b + 27 :: byte) = uint b + 27"
  by (simp add: uint_plus_if' word_le_def)

section \<open>The chain id in V\<close>

text \<open>The 64-bit path of \<open>deriveChainId\<close> on a value from 35 on that fits in 64 bits.\<close>

lemma fast_path:
  assumes "35 \<le> v" "v < 2 ^ 64"
  shows "Uint64 v \<noteq> 27" and "Uint64 v \<noteq> 28"
    and "uint ((Uint64 v - 35) div 2) = (v - 35) div 2"
proof -
  have u: "uint (Uint64 v) = v" using assms by (simp add: Uint64_small)
  show "Uint64 v \<noteq> 27"
  proof
    assume "Uint64 v = 27"
    then have "uint (Uint64 v) = 27" by simp
    with u assms show False by simp
  qed
  show "Uint64 v \<noteq> 28"
  proof
    assume "Uint64 v = 28"
    then have "uint (Uint64 v) = 28" by simp
    with u assms show False by simp
  qed
  have "Uint64 v = word_of_int v" using assms by (simp add: Uint64_def)
  moreover have "word_of_int v - (35 :: 64 word) = word_of_int (v - 35)" by simp
  ultimately have "uint (Uint64 v - 35) = take_bit 64 (v - 35)"
    by (simp only: uint_word_of_int_eq) simp
  then have s: "uint (Uint64 v - 35) = v - 35"
    using assms by (simp add: take_bit_int_eq_self)
  show "uint ((Uint64 v - 35) div 2) = (v - 35) div 2"
    by (simp add: uint_div s)
qed

lemma deriveChainId_fast:
  assumes "35 \<le> v" "v < 2 ^ 64"
  shows "deriveChainId v = (v - 35) div 2"
proof -
  have b: "BitLen v \<le> 64" using assms by (simp add: BitLen_le)
  with fast_path [OF assms] show ?thesis by (simp add: deriveChainId_def Let_def)
qed

lemma deriveChainId_slow:
  assumes "2 ^ 64 \<le> \<bar>v\<bar>"
  shows "deriveChainId v = (v - 35) div 2"
  using assms by (simp add: deriveChainId_def BitLen_le)

lemma deriveChainId_biased:
  assumes "0 < c" "0 \<le> b" "b \<le> 1"
  shows "deriveChainId (b + 35 + c * 2) = c"
proof -
  have sl: "(b + 35 + c * 2 - 35) div 2 = c" using assms by simp
  show ?thesis
  proof (cases "b + 35 + c * 2 < 2 ^ 64")
    case True
    moreover have "35 \<le> b + 35 + c * 2" using assms by simp
    ultimately have "deriveChainId (b + 35 + c * 2) = (b + 35 + c * 2 - 35) div 2"
      by (rule deriveChainId_fast [rotated])
    with sl show ?thesis by simp
  next
    case False
    with assms have "2 ^ 64 \<le> \<bar>b + 35 + c * 2\<bar>" by simp
    then have "deriveChainId (b + 35 + c * 2) = (b + 35 + c * 2 - 35) div 2"
      by (rule deriveChainId_slow)
    with sl show ?thesis by simp
  qed
qed

text \<open>
  C7, as amended. Under a positive chain id \<open>c\<close> (with \<open>chainIdMul = c * 2\<close>) and a
  recovery bit \<open>b\<close> of 0 or 1 in \<open>sig[64]\<close>, \<open>get\<close> stores \<open>V = b + 35 + c * 2\<close>, and
  \<open>deriveChainId\<close> gives \<open>c\<close> back: on the 64-bit path when V fits in 64 bits, on the
  big-integer path when it does not.
\<close>

theorem get_V_deriveChainId:
  assumes "chainId cfg = Some c" and "chainIdMul cfg = c * 2" and "0 < c"
    and "checkObj s = None" and "length sig = 65" and "sig ! 64 \<le> 1"
  shows "\<exists>s'. get cfg s sig = Inr s'
              \<and> V s' = Some (uint (sig ! 64) + 35 + c * 2)
              \<and> deriveChainId (the (V s')) = c
              \<and> (BitLen (the (V s')) \<le> 64 \<longrightarrow>
                   uint ((Uint64 (the (V s')) - 35) div 2) = c)
              \<and> (64 < BitLen (the (V s')) \<longrightarrow> (the (V s') - 35) div 2 = c)"
proof -
  let ?b = "uint (sig ! 64)"
  let ?v = "?b + 35 + c * 2"
  have b01: "0 \<le> ?b" "?b \<le> 1" using assms(6) by (simp_all add: word_le_def)
  have le: "sig ! 64 \<le> 220" using assms(6) by (simp add: word_le_def)
  have g: "get cfg s sig = Inr \<lparr>R = Some (SetBytes (take 32 sig)),
             S = Some (SetBytes (take 32 (drop 32 sig))), V = Some ?v\<rparr>"
    using assms le by (simp add: get_def Sign_def Let_def uint_bit_plus)
  have sl: "(?v - 35) div 2 = c" using b01 by simp
  have f: "uint ((Uint64 ?v - 35) div 2) = c" if "BitLen ?v \<le> 64"
  proof -
    from that have "?v < 2 ^ 64" using assms(3) b01 by (simp add: BitLen_le)
    moreover have "35 \<le> ?v" using assms(3) b01 by simp
    ultimately have "uint ((Uint64 ?v - 35) div 2) = (?v - 35) div 2"
      by (rule fast_path(3) [rotated])
    with sl show ?thesis by simp
  qed
  have d: "deriveChainId ?v = c" using assms(3) b01 by (rule deriveChainId_biased)
  show ?thesis using g d f sl by simp
qed

theorem get_V_deriveChainId_witness:
  "get (derived_config 1) init (replicate 64 0 @ [1]) = Inr \<lparr>R = Some 0, S = Some 0, V = Some 38\<rparr>
   \<and> deriveChainId 38 = 1 \<and> BitLen 38 \<le> 64
   \<and> get (derived_config (2 ^ 64)) init (replicate 64 0 @ [1])
        = Inr \<lparr>R = Some 0, S = Some 0, V = Some (2 ^ 65 + 36)\<rparr>
   \<and> deriveChainId (2 ^ 65 + 36) = 2 ^ 64 \<and> 64 < BitLen (2 ^ 65 + 36)"
proof -
  have l: "length (replicate 64 (0::byte) @ [1]) = 65" by simp
  have b: "(replicate 64 (0::byte) @ [1]) ! 64 \<le> 1" by (simp add: nth_append)
  have c: "checkObj init = None" by (simp add: checkObj_def init_def)
  have a: "get (derived_config 1) init (replicate 64 0 @ [1])
            = Inr \<lparr>R = Some 0, S = Some 0, V = Some 38\<rparr>"
    by (simp add: get_def derived_config_def checkObj_def init_def Sign_def SetBytes_zeros
        nth_append)
  have a': "get (derived_config (2 ^ 64)) init (replicate 64 0 @ [1])
            = Inr \<lparr>R = Some 0, S = Some 0, V = Some (2 ^ 65 + 36)\<rparr>"
    by (simp add: get_def derived_config_def checkObj_def init_def Sign_def SetBytes_zeros
        nth_append)
  have n: "64 < BitLen (2 ^ 65 + 36)"
    using BitLen_le [of "2 ^ 65 + 36" 64] by simp
  have m: "BitLen 38 \<le> 64" by (simp add: BitLen_le)
  show ?thesis
    using get_V_deriveChainId [of "derived_config 1" 1 init "replicate 64 0 @ [1]", OF _ _ _ c l b]
      get_V_deriveChainId [of "derived_config (2 ^ 64)" "2 ^ 64" init "replicate 64 0 @ [1]",
        OF _ _ _ c l b]
    unfolding a a' using n m by (simp add: derived_config_def)
qed

text \<open>
  C7 as stated asks for every non-zero chain id. Under the chain id -1 and the recovery
  bit 0, \<open>get\<close> stores \<open>V = 33\<close>; on the 64-bit path \<open>33 - 35\<close> wraps, and
  \<open>deriveChainId\<close> gives \<open>2 ^ 63 - 1\<close>, not -1.
\<close>

theorem deriveChainId_negative_counterexample:
  "get (derived_config (- 1)) init (replicate 65 0) = Inr \<lparr>R = Some 0, S = Some 0, V = Some 33\<rparr>
   \<and> deriveChainId 33 = 9223372036854775807
   \<and> deriveChainId 33 \<noteq> - 1"
  by (simp add: get_def derived_config_def checkObj_def init_def Sign_def SetBytes_zeros
      deriveChainId_def BitLen_le Uint64_def Let_def)

section \<open>The digest of a credential\<close>

text \<open>
  C4. The digest \<open>CredentialSign.hash\<close> computes is the \<open>MsgpHash\<close> of round, step and
  the constant quantity \<open>[0]\<close>: the seed of the round does not enter it, so two
  credentials of one round and step have one digest whatever their seeds are.
\<close>

theorem CredentialSign_hash_ignores_quantity:
  "CredentialSign_hash env cret =
     (case MsgpHash env (CredentialSigForHash (Round cret) (Step cret) [0]) of
        Inl err \<Rightarrow> zero_hash | Inr hash \<Rightarrow> hash)"
  by (simp add: CredentialSign_hash_def)

section \<open>The default parameters\<close>

text \<open>
  C5 as stated: the values \<open>setDefault\<close> installs do not satisfy the invariant, since
  \<open>PrLeader = 10 ^ 9\<close> exceeds \<open>PrPrecision = 10\<close>.
\<close>

theorem setDefault_breaks_Config_invariant:
  "\<not> Config_invariant (setDefault zero_Config)"
  by (simp add: Config_invariant_def setDefault_def numerator_le_def)

text \<open>
  C5, as amended. \<open>setDefault\<close> installs \<open>MaxBBASteps = 180\<close>, which is positive, and
  \<open>PrPrecision = 10\<close>, \<open>PrLeader = 10 ^ 9\<close>, \<open>PrVerifier = 5 * 10 ^ 9\<close>, \<open>PrH = 34\<close>:
  every numerator is at most \<open>10 ^ PrPrecision\<close>.
\<close>

theorem setDefault_digits_invariant:
  "Config_digits_invariant (setDefault c)
   \<and> MaxBBASteps (setDefault c) = 180
   \<and> PrPrecision (setDefault c) = Some 10
   \<and> PrLeader (setDefault c) = Some (10 ^ 9)
   \<and> PrVerifier (setDefault c) = Some (5 * 10 ^ 9)
   \<and> PrH (setDefault c) = Some 34"
  by (simp add: Config_digits_invariant_def setDefault_def numerator_le_def precision_scale_def)

section \<open>Invalid signatures serialise to nil\<close>

text \<open>
  C10. For an initialised signature whose reduced recovery byte, R and S do not pass
  \<open>ValidateSignatureValues\<close>, \<open>toBytes\<close> returns the nil slice, and \<open>hashBytes\<close> and
  \<open>Hash\<close> return the digest of the empty input: a value, not an error.
\<close>

theorem toBytes_invalid_is_nil:
  assumes "checkObj s = None"
    and "chainId cfg = Some c"
    and "\<not> ValidateSignatureValues env (ucast (Uint64 (unbias cfg c (the (V s)))))
           (the (R s)) (the (S s)) True"
  shows "toBytes env cfg s = Inr None
       \<and> hashBytes env cfg s = Inr (Keccak256 env [])
       \<and> Hash env cfg s = Inr (copy_array 32 (Keccak256 env []))"
  using assms by (simp add: toBytes_def hashBytes_def Hash_def slice_bytes_def)

theorem toBytes_invalid_is_nil_witness:
  "toBytes sample_crypto (derived_config 1) \<lparr>R = Some 0, S = Some 1, V = Some 37\<rparr> = Inr None
   \<and> hashBytes sample_crypto (derived_config 1) \<lparr>R = Some 0, S = Some 1, V = Some 37\<rparr>
       = Inr (replicate 32 0)
   \<and> Hash sample_crypto (derived_config 1) \<lparr>R = Some 0, S = Some 1, V = Some 37\<rparr>
       = Inr (replicate 32 0)"
  using toBytes_invalid_is_nil [of "\<lparr>R = Some 0, S = Some 1, V = Some 37\<rparr>" "derived_config 1" 1
      sample_crypto]
  by (simp add: checkObj_def derived_config_def sample_crypto_def copy_array_def)

section \<open>The fallback of the agreement\<close>

text \<open>A quorum observed at a step within the bound ends the round there, with its value.\<close>

lemma bba_steps_commit:
  "quorum i = Some v \<Longrightarrow> bba_steps k quorum i = (i, Committed v)"
  by (subst bba_steps.simps) simp

text \<open>
  C9. With \<open>maxBBASteps = k\<close> (positive, as the configuration requires) and participants
  none of which observes a quorum at any step from 1 to \<open>k\<close>, every participant ends at
  step \<open>k\<close>, exactly, with the fallback value.
\<close>

theorem bba_fallback:
  assumes "0 < k"
    and "\<forall>p \<in> set participants. \<forall>i. 1 \<le> i \<and> i \<le> k \<longrightarrow> observed p i = None"
  shows "\<forall>p \<in> set participants. bba_round k (observed p) = (k, FallbackCommitted)"
proof
  fix p assume p: "p \<in> set participants"
  have none: "observed p i = None" if "1 \<le> i" "i \<le> k" for i
    using assms(2) p that by blast
  have "bba_steps k (observed p) (k - d) = (k, FallbackCommitted)" if "d < k" for d
    using that
  proof (induction d)
    case 0
    then show ?case using none [of k] assms(1) by (subst bba_steps.simps) simp
  next
    case (Suc d)
    then have "observed p (k - Suc d) = None" using none [of "k - Suc d"] by simp
    moreover have "Suc (k - Suc d) = k - d" using Suc.prems by simp
    ultimately show ?case using Suc by (subst bba_steps.simps) simp
  qed
  from this [of "k - 1"] assms(1) show "bba_round k (observed p) = (k, FallbackCommitted)"
    by (simp add: bba_round_def)
qed

theorem bba_fallback_witness:
  "bba_round 12 (\<lambda>i. if 12 < i then Some (5::nat) else None) = (12, FallbackCommitted)
   \<and> bba_round 12 (\<lambda>i. if 12 < i then Some (7::nat) else None) = (12, FallbackCommitted)"
  using bba_fallback [of 12 "[5, 7::nat]" "\<lambda>p i. if 12 < i then Some p else None"]
  by simp

section \<open>Serialising a signature and reading it back\<close>

lemma nat_bytes_small: "0 < n \<Longrightarrow> n < 256 \<Longrightarrow> nat_bytes n = [of_nat n]"
  by (subst nat_bytes.simps) (simp add: nat_bytes.simps [of 0])

lemma Bytes_small: "0 < x \<Longrightarrow> x < 256 \<Longrightarrow> Bytes x = [of_nat (nat x)]"
  by (simp add: Bytes_def nat_bytes_small)

lemma length_Bytes: "0 \<le> x \<Longrightarrow> x < 2 ^ 256 \<Longrightarrow> length (Bytes x) \<le> 32"
proof -
  assume "0 \<le> x" "x < 2 ^ 256"
  then have "nat \<bar>x\<bar> < 2 ^ 256" by (simp add: nat_less_iff)
  moreover have "(2::nat) ^ 256 = 256 ^ 32" by simp
  ultimately have "nat \<bar>x\<bar> < 256 ^ 32" by (simp only:)
  then show ?thesis unfolding Bytes_def by (rule length_nat_bytes)
qed

lemma SetBytes_Bytes: "0 \<le> x \<Longrightarrow> SetBytes (Bytes x) = x"
  by (simp add: Bytes_def SetBytes_nat_bytes)

lemma ucast_Uint64_byte: "ucast (Uint64 (uint (b :: byte))) = b"
proof -
  have "\<bar>uint b\<bar> = uint b" by simp
  then have "Uint64 (uint b) = word_of_int (uint b)" by (simp add: Uint64_def)
  moreover have "ucast (word_of_int (uint b) :: 64 word) = (word_of_int (uint b) :: byte)"
    by (rule ucast_down_wi) (simp add: is_down)
  ultimately show ?thesis by (simp only: word_of_int_uint)
qed

lemma int_lin1: "(x::int) = y + 35 \<Longrightarrow> v - m - 35 = y \<Longrightarrow> x + m = v"
  by linarith

lemma int_lin2: "(x::int) = y + 27 \<Longrightarrow> v - 27 = y \<Longrightarrow> x = v"
  by linarith

text \<open>
  The round trip on signatures in range. An initialised signature with R and S
  non-negative and below \<open>2 ^ 256\<close>, whose V is a recovery byte \<open>b\<close> under the chain-id
  bias (small enough for the bias to fit in a byte: validated recovery bytes are 0 or 1)
  and which passes \<open>ValidateSignatureValues\<close>, is serialised by \<open>toBytes\<close> to 65 bytes:
  R in 32 bytes, S in 32 bytes, then \<open>b\<close>. \<open>get\<close> on these bytes gives the signature
  back, V included.
\<close>

lemma toBytes_get_roundtrip:
  assumes "chainId cfg = Some c"
    and "R s = Some r" and "S s = Some sv" and "V s = Some v"
    and "0 \<le> r" and "r < 2 ^ 256" and "0 \<le> sv" and "sv < 2 ^ 256"
    and "unbias cfg c v = uint b" and "b \<le> 220"
    and "ValidateSignatureValues env b r sv True"
    and "checkObj s0 = None"
  shows "\<exists>bs. toBytes env cfg s = Inr (Some bs)
             \<and> length bs = 65
             \<and> bs = replicate (32 - length (Bytes r)) 0 @ Bytes r
                    @ replicate (32 - length (Bytes sv)) 0 @ Bytes sv @ [b]
             \<and> SetBytes (take 32 bs) = r
             \<and> SetBytes (take 32 (drop 32 bs)) = sv
             \<and> bs ! 64 = b
             \<and> get cfg s0 bs = Inr s"
proof -
  define pr where "pr = replicate (32 - length (Bytes r)) 0 @ Bytes r"
  define ps where "ps = replicate (32 - length (Bytes sv)) 0 @ Bytes sv"
  define bs where "bs = pr @ ps @ [b]"
  have lr: "length (Bytes r) \<le> 32" using assms(5,6) by (rule length_Bytes)
  have ls: "length (Bytes sv) \<le> 32" using assms(7,8) by (rule length_Bytes)
  have init: "checkObj s = None" using assms(2-4) by (simp add: checkObj_def)
  have vb: "(ucast (Uint64 (unbias cfg c (the (V s)))) :: byte) = b"
    using assms(4,9) by (simp add: ucast_Uint64_byte)
  have t: "toBytes env cfg s = Inr (Some bs)"
    using assms(1-3,11) init lr ls vb
    by (simp add: toBytes_def Let_def sig_layout bs_def pr_def ps_def)
  have lp: "length pr = 32" "length ps = 32"
    using lr ls by (simp_all add: pr_def ps_def)
  have len: "length bs = 65" using lp by (simp add: bs_def)
  have tr: "take 32 bs = pr" using lp by (simp add: bs_def)
  have ts: "take 32 (drop 32 bs) = ps" using lp by (simp add: bs_def)
  have n: "bs ! 64 = b" using lp by (simp add: bs_def nth_append)
  have sr: "SetBytes (take 32 bs) = r"
    unfolding tr using assms(5) by (simp add: pr_def SetBytes_pad SetBytes_Bytes)
  have ss: "SetBytes (take 32 (drop 32 bs)) = sv"
    unfolding ts using assms(7) by (simp add: ps_def SetBytes_pad SetBytes_Bytes)
  have v1: "uint (b + 35) + chainIdMul cfg = v" if "Sign c \<noteq> 0"
  proof -
    have "uint (b + 35) = uint b + 35" using assms(10) by (rule uint_bit_plus)
    moreover have "v - chainIdMul cfg - 35 = uint b" using assms(9) that by (simp add: unbias_def)
    ultimately show ?thesis by (rule int_lin1)
  qed
  have b228: "b \<le> 228" using assms(10) by (simp add: word_le_def)
  have v2: "SetBytes [b + 27] = v" if "Sign c = 0"
  proof -
    have "uint (b + 27) = uint b + 27" using b228 by (rule uint_bit_plus27)
    moreover have "v - 27 = uint b" using assms(9) that by (simp add: unbias_def)
    ultimately have "uint (b + 27) = v" by (rule int_lin2)
    then show ?thesis by (simp only: SetBytes_single)
  qed
  have s: "s = \<lparr>R = Some r, S = Some sv, V = Some v\<rparr>"
    using assms(2-4) by (cases s) simp
  have g: "get cfg s0 bs = Inr s"
    using assms(1,12) len v1 v2
    by (simp add: get_def Let_def sr ss n s)
  have e: "bs = replicate (32 - length (Bytes r)) 0 @ Bytes r
                    @ replicate (32 - length (Bytes sv)) 0 @ Bytes sv @ [b]"
    by (simp add: bs_def pr_def ps_def)
  show ?thesis
    by (rule exI [of _ bs]) (intro conjI t len e sr ss n g)
qed

lemma toBytes_get_roundtrip_sample:
  "toBytes sample_crypto (derived_config 1) \<lparr>R = Some 7, S = Some 1, V = Some 38\<rparr>
     = Inr (Some (replicate 31 0 @ [7] @ replicate 31 0 @ [1] @ [1]))
   \<and> get (derived_config 1) init (replicate 31 0 @ [7] @ replicate 31 0 @ [1] @ [1])
     = Inr \<lparr>R = Some 7, S = Some 1, V = Some 38\<rparr>"
proof -
  have b7: "Bytes 7 = [7]" and b1: "Bytes 1 = [1]" by (simp_all add: Bytes_small)
  have v: "ValidateSignatureValues sample_crypto 1 7 1 True" by (simp add: sample_crypto_def)
  have u: "unbias (derived_config 1) 1 38 = uint (1::byte)"
    by (simp add: unbias_def derived_config_def Sign_def)
  have c: "checkObj init = None" by (simp add: checkObj_def init_def)
  from toBytes_get_roundtrip [of "derived_config 1" 1 "\<lparr>R = Some 7, S = Some 1, V = Some 38\<rparr>"
      7 1 38 1 sample_crypto init, OF _ _ _ _ _ _ _ _ u _ v c]
  show ?thesis unfolding b7 b1 by (simp add: derived_config_def)
qed

text \<open>
  C3. The claim asks the round trip of every initialised signature that passes the
  validation in \<open>toBytes\<close>. \<open>toBytes\<close> validates the low byte of the unbiased V and
  does not test its width, as \<open>recoverPlain\<close> does (\<open>Vb.BitLen() > 8\<close>). Under chain id
  1 the signature \<open>R = 7\<close>, \<open>S = 1\<close>, \<open>V = 293\<close> has the unbiased V 256, whose low
  byte is 0: \<open>toBytes\<close> accepts it and writes the 65 bytes of the signature with
  \<open>V = 37\<close>, and \<open>get\<close> reads \<open>V = 37\<close> back, not 293. \<open>recoverPlain\<close> refuses the
  same unbiased V.
\<close>

theorem toBytes_drops_wide_V:
  "toBytes sample_crypto (derived_config 1) \<lparr>R = Some 7, S = Some 1, V = Some 293\<rparr>
     = Inr (Some (replicate 31 0 @ [7] @ replicate 31 0 @ [1] @ [0]))
   \<and> get (derived_config 1) init (replicate 31 0 @ [7] @ replicate 31 0 @ [1] @ [0])
     = Inr \<lparr>R = Some 7, S = Some 1, V = Some 37\<rparr>
   \<and> recoverPlain sample_crypto (replicate 31 0 @ [1]) 7 1 256 True = Inl ErrInvalidSig"
proof -
  have b: "Bytes 7 = [7]" "Bytes 1 = [1]" by (simp_all add: Bytes_small)
  have cf: "chainId (derived_config 1) = Some 1" by (simp add: derived_config_def)
  have u: "unbias (derived_config 1) 1 293 = 256"
    by (simp add: unbias_def derived_config_def Sign_def)
  have uz: "(ucast (Uint64 256) :: byte) = 0" by (simp add: Uint64_def)
  have l: "(copy_at (copy_at (replicate 65 0) 31 [x]) 63 [y]) [64 := z]
           = replicate 31 0 @ [x] @ replicate 31 0 @ [y] @ [z]" for x y z :: byte
    using sig_layout [of "[x]" "[y]" z] by simp
  have t: "toBytes sample_crypto (derived_config 1) \<lparr>R = Some 7, S = Some 1, V = Some 293\<rparr>
     = Inr (Some (replicate 31 0 @ [7] @ replicate 31 0 @ [1] @ [0]))"
    unfolding toBytes_def Let_def
    by (simp add: checkObj_def cf u uz b l sample_crypto_def)
  have g: "get (derived_config 1) init (replicate 31 0 @ [7] @ replicate 31 0 @ [1] @ [0])
     = Inr \<lparr>R = Some 7, S = Some 1, V = Some 37\<rparr>"
    by (simp add: get_def derived_config_def checkObj_def init_def Sign_def
        SetBytes_pad SetBytes_single nth_append)
  have r: "recoverPlain sample_crypto (replicate 31 0 @ [1]) 7 1 256 True = Inl ErrInvalidSig"
    using BitLen_le [of 256 8] by (simp add: recoverPlain_def)
  show ?thesis using t g r by simp
qed

section \<open>From 32 bytes to a big integer and back\<close>

lemma nat_bytes_Nil_iff: "nat_bytes n = [] \<longleftrightarrow> n = 0"
  by (subst nat_bytes.simps) simp

lemma int_pos_aux: "0 \<le> (x::int) \<Longrightarrow> 0 \<le> y \<Longrightarrow> x * 256 + y \<noteq> 0 \<Longrightarrow> nat (x * 256 + y) \<noteq> 0"
  by arith

lemma int_div_aux:
  "0 \<le> (x::int) \<Longrightarrow> 0 \<le> y \<Longrightarrow> y < 256 \<Longrightarrow> nat (x * 256 + y) div 256 = nat x"
proof -
  assume a: "0 \<le> x" "0 \<le> y" "y < 256"
  then have "(x * 256 + y) div 256 = x" by simp
  moreover have "nat ((x * 256 + y) div 256) = nat (x * 256 + y) div nat 256"
    using a by (intro nat_div_distrib) simp
  ultimately show ?thesis by simp
qed

lemma int_mod_aux:
  "0 \<le> (x::int) \<Longrightarrow> 0 \<le> y \<Longrightarrow> y < 256 \<Longrightarrow> int (nat (x * 256 + y) mod 256) = y"
proof -
  assume a: "0 \<le> x" "0 \<le> y" "y < 256"
  then have "(x * 256 + y) mod 256 = y" by simp
  moreover have "int (nat (x * 256 + y) mod 256) = (x * 256 + y) mod 256"
    using a by (simp add: zmod_int)
  ultimately show ?thesis by simp
qed

lemma nat_bytes_SetBytes: "nat_bytes (nat (SetBytes xs)) = dropWhile (\<lambda>b. b = 0) xs"
proof (induction xs rule: rev_induct)
  case Nil
  show ?case by (simp add: SetBytes_Nil nat_bytes_Nil_iff)
next
  case (snoc b xs)
  let ?n = "SetBytes xs * 256 + uint b"
  have nn: "0 \<le> SetBytes xs" by (rule SetBytes_nonneg)
  show ?case
  proof (cases "?n = 0")
    case True
    with nn have z: "SetBytes xs = 0" "uint b = 0"
      by (simp_all add: add_nonneg_eq_0_iff)
    then have "b = 0" by (simp add: uint_0_iff)
    moreover have n0: "nat_bytes 0 = []" by (simp add: nat_bytes_Nil_iff)
    moreover from z snoc n0 have "dropWhile (\<lambda>b. b = 0) xs = []"
      by simp
    ultimately show ?thesis using True
      by (simp add: SetBytes_snoc dropWhile_append)
  next
    case False
    have pos: "nat ?n \<noteq> 0" using nn _ False by (rule int_pos_aux) simp
    have ub: "0 \<le> uint b" "uint b < 256" using uint_lt2p [of b] by simp_all
    have d: "nat ?n div 256 = nat (SetBytes xs)"
      using nn ub by (rule int_div_aux)
    have m: "(of_nat (nat ?n mod 256) :: byte) = b"
    proof -
      have "int (nat ?n mod 256) = uint b" using nn ub by (rule int_mod_aux)
      then have "(of_nat (nat ?n mod 256) :: byte) = word_of_int (uint b)"
        by (metis of_int_of_nat_eq)
      then show ?thesis by (simp only: word_of_int_uint)
    qed
    have "nat_bytes (nat ?n) = nat_bytes (nat (SetBytes xs)) @ [b]"
      using pos by (subst nat_bytes.simps) (simp only: d m if_False)
    also have "\<dots> = dropWhile (\<lambda>b. b = 0) xs @ [b]" by (simp only: snoc)
    also have "\<dots> = dropWhile (\<lambda>b. b = 0) (xs @ [b])"
    proof (cases "\<forall>x\<in>set xs. x = 0")
      case True
      then have e: "dropWhile (\<lambda>b. b = 0) xs = []" by simp
      with snoc have "SetBytes xs = 0" using nn by (simp add: nat_bytes_Nil_iff)
      with False have "b \<noteq> 0" by (auto simp add: uint_0_iff)
      with True e show ?thesis by (simp add: dropWhile_append)
    next
      case False
      then show ?thesis by (auto simp add: dropWhile_append)
    qed
    finally show ?thesis by (simp only: SetBytes_snoc)
  qed
qed

lemma pad_dropWhile:
  "replicate (length xs - length (dropWhile (\<lambda>b. b = 0) xs)) (0::byte) @ dropWhile (\<lambda>b. b = 0) xs = xs"
proof (induction xs)
  case Nil
  show ?case by simp
next
  case (Cons x xs)
  have "length (dropWhile (\<lambda>b. b = 0) xs) \<le> length xs" by (rule length_dropWhile_le)
  then have "Suc (length xs) - length (dropWhile (\<lambda>b. b = 0) xs)
             = Suc (length xs - length (dropWhile (\<lambda>b. b = 0) xs))" by simp
  with Cons show ?case by simp
qed

lemma pad_Bytes_SetBytes:
  assumes "length xs = 32"
  shows "replicate (32 - length (Bytes (SetBytes xs))) 0 @ Bytes (SetBytes xs) = xs"
    and "length (Bytes (SetBytes xs)) \<le> 32"
proof -
  have b: "Bytes (SetBytes xs) = dropWhile (\<lambda>b. b = 0) xs"
    using SetBytes_nonneg [of xs] by (simp add: Bytes_def nat_bytes_SetBytes)
  show "replicate (32 - length (Bytes (SetBytes xs))) 0 @ Bytes (SetBytes xs) = xs"
    unfolding b using pad_dropWhile [of xs] assms by simp
  show "length (Bytes (SetBytes xs)) \<le> 32"
    unfolding b using length_dropWhile_le [of "\<lambda>b. b = 0" xs] assms by simp
qed

lemma sig_rebuild:
  assumes "length sig = 65"
  shows "(copy_at (copy_at (replicate 65 0)
            (32 - length (Bytes (SetBytes (take 32 sig)))) (Bytes (SetBytes (take 32 sig))))
            (64 - length (Bytes (SetBytes (take 32 (drop 32 sig)))))
            (Bytes (SetBytes (take 32 (drop 32 sig))))) [64 := sig ! 64] = sig"
proof -
  define xs where "xs = take 32 sig"
  define ys where "ys = take 32 (drop 32 sig)"
  have lx: "length xs = 32" and ly: "length ys = 32" using assms by (simp_all add: xs_def ys_def)
  have "sig = take 64 sig @ drop 64 sig" by simp
  moreover have "take 64 sig = xs @ ys"
    using assms by (simp add: xs_def ys_def take_add [of 32 32 sig, simplified])
  moreover have "drop 64 sig = [sig ! 64]"
    using Cons_nth_drop_Suc [of 64 sig] assms by simp
  ultimately have s: "sig = xs @ ys @ [sig ! 64]" by simp
  have "(copy_at (copy_at (replicate 65 0) (32 - length (Bytes (SetBytes xs))) (Bytes (SetBytes xs)))
            (64 - length (Bytes (SetBytes ys))) (Bytes (SetBytes ys))) [64 := sig ! 64]
        = xs @ ys @ [sig ! 64]"
    using pad_Bytes_SetBytes [OF lx] pad_Bytes_SetBytes [OF ly]
    by (simp add: sig_layout)
  with s show ?thesis unfolding xs_def ys_def by simp
qed

section \<open>Signing, then recovering the sender\<close>

lemma int_01: "0 \<le> (x::int) \<Longrightarrow> x \<le> 1 \<Longrightarrow> x = 0 \<or> x = 1"
  by arith

lemma byte_le_1: "(b::byte) \<le> 1 \<Longrightarrow> b = 0 \<or> b = 1"
proof -
  assume "b \<le> 1"
  then have "uint b \<le> 1" by (simp add: word_le_def)
  with int_01 [of "uint b"] have "uint b = 0 \<or> uint b = 1" by simp
  then show ?thesis by (simp add: word_uint_eq_iff)
qed

lemma deriveChainId_27_28: "deriveChainId 27 = 0" "deriveChainId 28 = 0"
  by (simp_all add: deriveChainId_def BitLen_le Uint64_def)

lemma BitLen_byte: "BitLen (uint (b::byte)) \<le> 8"
proof -
  have "uint b < 2 ^ 8" using uint_lt2p [of b] by simp
  then show ?thesis by (simp only: BitLen_le abs_of_nonneg [OF uint_ge_0])
qed

lemma hash_Sig_update: "CredentialSign_hash env (cret\<lparr>Sig := s\<rparr>) = CredentialSign_hash env cret"
  by (simp add: CredentialSign_hash_def)

lemma recoverPlain_rebuilt:
  assumes "length sig = 65"
    and "ValidateSignatureValues env (sig ! 64) (SetBytes (take 32 sig))
           (SetBytes (take 32 (drop 32 sig))) True"
    and "Ecrecover env h sig = Inr pub"
    and "pub \<noteq> []" and "hd pub = 4" and "12 \<le> length (Keccak256 env (tl pub))"
  shows "recoverPlain env h (SetBytes (take 32 sig)) (SetBytes (take 32 (drop 32 sig)))
           (uint (sig ! 64)) True
         = Inr (copy_array 20 (drop 12 (Keccak256 env (tl pub))))"
proof -
  have lx: "length (take 32 sig) = 32" and ly: "length (take 32 (drop 32 sig)) = 32"
    using assms(1) by simp_all
  have l1: "\<not> 32 < length (Bytes (SetBytes (take 32 sig)))"
    using pad_Bytes_SetBytes(2) [OF lx] by simp
  have l2: "\<not> 64 < length (Bytes (SetBytes (take 32 (drop 32 sig))))"
    using pad_Bytes_SetBytes(2) [OF ly] by simp
  have b8: "\<not> 8 < BitLen (uint (sig ! 64))" using BitLen_byte [of "sig ! 64"] by simp
  show ?thesis
    unfolding recoverPlain_def Let_def ucast_Uint64_byte sig_rebuild [OF assms(1)]
    using assms(2-6) l1 l2 b8 by simp
qed

text \<open>
  C1, as amended. The primitives are parameters, so their correctness is a hypothesis:
  for the key and the digest at hand \<open>crypto.Sign\<close> returns 65 bytes with a recovery bit of 0 or 1
  that \<open>ValidateSignatureValues\<close> accepts, and \<open>crypto.Ecrecover\<close> on these bytes
  returns the signer's public key \<open>pub\<close> in uncompressed form (first byte 4). Then, for
  an initialised credential whose hash is not zero, under a chain id that is not
  negative, \<open>sign\<close> succeeds and \<open>sender\<close> on the signed credential returns the
  address of \<open>pub\<close>: the last 20 bytes of the digest of \<open>pub\<close> without its first byte.
\<close>

theorem sign_sender_roundtrip:
  assumes "chainId cfg = Some c" and "0 \<le> c" and "chainIdMul cfg = c * 2"
    and "checkObj (Sig cret) = None"
    and "CredentialSign_hash env cret \<noteq> zero_hash"
    and "crypto_Sign env (CredentialSign_hash env cret) key = Inr sig"
    and "length sig = 65" and "sig ! 64 \<le> 1"
    and "ValidateSignatureValues env (sig ! 64) (SetBytes (take 32 sig))
           (SetBytes (take 32 (drop 32 sig))) True"
    and "Ecrecover env (CredentialSign_hash env cret) sig = Inr pub"
    and "pub \<noteq> []" and "hd pub = 4" and "12 \<le> length (Keccak256 env (tl pub))"
  shows "\<exists>r sv v cret'.
           CredentialSign_sign env cfg (Some key) cret = (Inr (r, sv, v), cret')
         \<and> Sig cret' = \<lparr>R = Some r, S = Some sv, V = Some v\<rparr>
         \<and> CredentialSign_sender env cfg cret'
             = Inr (copy_array 20 (drop 12 (Keccak256 env (tl pub))))"
proof -
  define r where "r = SetBytes (take 32 sig)"
  define sv where "sv = SetBytes (take 32 (drop 32 sig))"
  define v where "v = (if c = 0 then uint (sig ! 64) + 27 else uint (sig ! 64) + 35 + c * 2)"
  define s' where "s' = \<lparr>R = Some r, S = Some sv, V = Some v\<rparr>"
  define cret' where "cret' = cret\<lparr>Sig := s'\<rparr>"
  have b01: "0 \<le> uint (sig ! 64)" "uint (sig ! 64) \<le> 1"
    using assms(8) by (simp_all add: word_le_def)
  have le: "sig ! 64 \<le> 220" "sig ! 64 \<le> 228" using assms(8) by (simp_all add: word_le_def)
  have g: "get cfg (Sig cret) sig = Inr s'"
    using assms(1,3,4,7) le
    by (simp add: get_def Let_def Sign_def s'_def r_def sv_def v_def uint_bit_plus
        uint_bit_plus27 SetBytes_single)
  have sgn: "CredentialSign_sign env cfg (Some key) cret = (Inr (r, sv, v), cret')"
    using assms(5,6) g by (simp add: CredentialSign_sign_def Let_def s'_def cret'_def)
  have d: "deriveChainId v = c"
  proof (cases "c = 0")
    case True
    with byte_le_1 [OF assms(8)] show ?thesis
      by (auto simp add: v_def deriveChainId_27_28)
  next
    case False
    with assms(2) have "0 < c" by simp
    then have "deriveChainId (uint (sig ! 64) + 35 + c * 2) = c"
      using b01 by (rule deriveChainId_biased)
    with False show ?thesis by (simp add: v_def)
  qed
  have u: "unbias cfg c v = uint (sig ! 64)"
    using assms(3) by (simp add: unbias_def v_def Sign_def)
  have rp: "recoverPlain env (CredentialSign_hash env cret) r sv (uint (sig ! 64)) True
            = Inr (copy_array 20 (drop 12 (Keccak256 env (tl pub))))"
    unfolding r_def sv_def using assms(7,9-13) by (rule recoverPlain_rebuilt)
  have snd: "CredentialSign_sender env cfg cret'
             = Inr (copy_array 20 (drop 12 (Keccak256 env (tl pub))))"
    using assms(1) d u rp
    by (simp add: CredentialSign_sender_def cret'_def s'_def checkObj_def Let_def big_Cmp_def
        hash_Sig_update)
  have sg': "Sig cret' = \<lparr>R = Some r, S = Some sv, V = Some v\<rparr>"
    by (simp add: cret'_def s'_def)
  show ?thesis
    by (intro exI conjI) (rule sgn, rule sg', rule snd)
qed

lemma digest_last: "replicate 31 0 @ [x] = replicate 32 (0::byte) \<longleftrightarrow> x = 0"
proof -
  have "replicate (Suc 31) (0::byte) = replicate 31 0 @ [0]"
    by (simp only: replicate_Suc replicate_append_same)
  then have "replicate 32 (0::byte) = replicate 31 0 @ [0]" by simp
  then show ?thesis by simp
qed

theorem sign_sender_roundtrip_witness:
  "CredentialSign_sender sample_crypto (derived_config 1)
     (snd (CredentialSign_sign sample_crypto (derived_config 1) (Some 7)
             \<lparr>Sig = init, Round = 1, Step = 1\<rparr>))
   = Inr (replicate 19 0 @ [7])"
proof -
  define cret where "cret = \<lparr>Sig = init, Round = 1, Step = 1\<rparr>"
  define sig :: "byte list" where "sig = replicate 31 0 @ [7] @ replicate 31 0 @ [1] @ [0]"
  define pub :: "byte list" where "pub = 4 # replicate 31 0 @ [7]"
  have h: "CredentialSign_hash sample_crypto cret = replicate 31 0 @ [1]"
    by (simp add: CredentialSign_hash_def sample_crypto_def sample_MsgpHash_def cret_def)
  have h0: "CredentialSign_hash sample_crypto cret \<noteq> zero_hash"
    unfolding h by (simp add: zero_hash_def digest_last)
  have sg: "crypto_Sign sample_crypto (CredentialSign_hash sample_crypto cret) 7 = Inr sig"
    by (simp add: sample_crypto_def sig_def)
  have len: "length sig = 65" by (simp add: sig_def)
  have n: "sig ! 64 = 0" by (simp add: sig_def nth_append)
  have bit: "sig ! 64 \<le> 1" unfolding n by simp
  have tr: "take 32 sig = replicate 31 0 @ [7]" by (simp add: sig_def)
  have ts: "take 32 (drop 32 sig) = replicate 31 0 @ [1]" by (simp add: sig_def)
  have val: "ValidateSignatureValues sample_crypto (sig ! 64) (SetBytes (take 32 sig))
               (SetBytes (take 32 (drop 32 sig))) True"
    unfolding tr ts n by (simp add: sample_crypto_def SetBytes_pad SetBytes_single)
  have rc: "Ecrecover sample_crypto (CredentialSign_hash sample_crypto cret) sig = Inr pub"
    using tr by (simp add: sample_crypto_def pub_def)
  have p1: "pub \<noteq> []" and p2: "hd pub = 4" by (simp_all add: pub_def)
  have k: "Keccak256 sample_crypto (tl pub) = replicate 31 0 @ [7]"
    by (simp add: sample_crypto_def pub_def copy_array_def)
  have p3: "12 \<le> length (Keccak256 sample_crypto (tl pub))" unfolding k by simp
  have c: "checkObj (Sig cret) = None" by (simp add: cret_def checkObj_def init_def)
  have cf: "chainId (derived_config 1) = Some 1" "chainIdMul (derived_config 1) = 1 * 2"
    by (simp_all add: derived_config_def)
  from sign_sender_roundtrip [OF cf(1) _ cf(2) c h0 sg len bit val rc p1 p2 p3]
  obtain r sv v cret' where
    a: "CredentialSign_sign sample_crypto (derived_config 1) (Some 7) cret = (Inr (r, sv, v), cret')"
    and b: "CredentialSign_sender sample_crypto (derived_config 1) cret'
            = Inr (copy_array 20 (drop 12 (Keccak256 sample_crypto (tl pub))))"
    by auto
  from a have "snd (CredentialSign_sign sample_crypto (derived_config 1) (Some 7) cret) = cret'"
    by simp
  with b show ?thesis unfolding k cret_def by (simp add: copy_array_def)
qed

text \<open>
  C1 as stated asks the round trip for every key and payload, whatever the configured
  chain id. Under the chain id -4 \<open>sign\<close> succeeds and stores \<open>V = 0 + 35 - 8 = 27\<close>,
  which \<open>deriveChainId\<close> reads as the chain id 0: \<open>sender\<close> on the credential just
  signed returns \<open>ErrInvalidChainId\<close>, not the address.
\<close>

theorem sign_sender_negative_chain_id_counterexample:
  "CredentialSign_sign sample_crypto (derived_config (- 4)) (Some 7)
      \<lparr>Sig = init, Round = 1, Step = 1\<rparr>
     = (Inr (7, 1, 27), \<lparr>Sig = \<lparr>R = Some 7, S = Some 1, V = Some 27\<rparr>, Round = 1, Step = 1\<rparr>)
   \<and> CredentialSign_sender sample_crypto (derived_config (- 4))
       \<lparr>Sig = \<lparr>R = Some 7, S = Some 1, V = Some 27\<rparr>, Round = 1, Step = 1\<rparr>
     = Inl ErrInvalidChainId"
proof -
  define cret where "cret = \<lparr>Sig = init, Round = 1, Step = 1\<rparr>"
  define sig :: "byte list" where "sig = replicate 31 0 @ [7] @ replicate 31 0 @ [1] @ [0]"
  define s' where "s' = \<lparr>R = Some 7, S = Some 1, V = Some 27\<rparr>"
  have h: "CredentialSign_hash sample_crypto cret = replicate 31 0 @ [1]"
    by (simp add: CredentialSign_hash_def sample_crypto_def sample_MsgpHash_def cret_def)
  have h0: "CredentialSign_hash sample_crypto cret \<noteq> zero_hash"
    unfolding h by (simp add: zero_hash_def digest_last)
  have sg: "crypto_Sign sample_crypto (CredentialSign_hash sample_crypto cret) 7 = Inr sig"
    by (simp add: sample_crypto_def sig_def)
  have len: "length sig = 65" by (simp add: sig_def)
  have n: "sig ! 64 = 0" by (simp add: sig_def nth_append)
  have tr: "take 32 sig = replicate 31 0 @ [7]" by (simp add: sig_def)
  have ts: "take 32 (drop 32 sig) = replicate 31 0 @ [1]" by (simp add: sig_def)
  have r7: "SetBytes (take 32 sig) = 7" and s1: "SetBytes (take 32 (drop 32 sig)) = 1"
    unfolding tr ts by (simp_all add: SetBytes_pad SetBytes_single)
  have g: "get (derived_config (- 4)) (Sig cret) sig = Inr s'"
    using len n r7 s1
    by (simp add: get_def derived_config_def checkObj_def init_def Sign_def cret_def s'_def)
  have sgn: "CredentialSign_sign sample_crypto (derived_config (- 4)) (Some 7) cret
             = (Inr (7, 1, 27), cret\<lparr>Sig := s'\<rparr>)"
    using h0 sg g by (simp add: CredentialSign_sign_def Let_def s'_def)
  have snd: "CredentialSign_sender sample_crypto (derived_config (- 4)) (cret\<lparr>Sig := s'\<rparr>)
             = Inl ErrInvalidChainId"
    by (simp add: CredentialSign_sender_def derived_config_def checkObj_def s'_def Let_def
        deriveChainId_27_28 big_Cmp_def)
  show ?thesis
    using sgn snd unfolding cret_def s'_def by simp
qed

section \<open>The error branches of sign\<close>

lemma get_error:
  "get cfg s sig = Inl e \<Longrightarrow> e = PanicNotInitialized \<or> e = ErrWrongSize (length sig)"
  by (auto simp add: get_def checkObj_def Let_def split: if_splits option.splits)

text \<open>
  C6. Both \<open>sign\<close> methods return the error "private key is empty" and no components
  on a nil key, and the error "the hash of credential is empty" and no components when
  the payload hashes to the zero digest; in both cases the receiver is left as it was.
  With a key and a digest that is not zero, neither of the two errors is what \<open>sign\<close>
  returns. (\<open>EphemeralSign.hash\<close> panics on a nil \<open>val\<close>; a payload that hashes has one.)
\<close>

theorem sign_error_branches:
  "CredentialSign_sign env cfg None cret = (Inl ErrEmptyKey, cret)
   \<and> EphemeralSign_sign env cfg None esig = (Inl ErrEmptyKey, esig)
   \<and> (CredentialSign_hash env cret = zero_hash \<longrightarrow>
        CredentialSign_sign env cfg (Some key) cret = (Inl ErrEmptyHash, cret))
   \<and> (EphemeralSign_hash env esig = Inr zero_hash \<longrightarrow>
        EphemeralSign_sign env cfg (Some key) esig = (Inl ErrEmptyHash, esig))
   \<and> (CredentialSign_hash env cret \<noteq> zero_hash \<longrightarrow>
        fst (CredentialSign_sign env cfg (Some key) cret) \<noteq> Inl ErrEmptyKey
        \<and> fst (CredentialSign_sign env cfg (Some key) cret) \<noteq> Inl ErrEmptyHash)
   \<and> (EphemeralSign_hash env esig = Inr h \<and> h \<noteq> zero_hash \<longrightarrow>
        fst (EphemeralSign_sign env cfg (Some key) esig) \<noteq> Inl ErrEmptyKey
        \<and> fst (EphemeralSign_sign env cfg (Some key) esig) \<noteq> Inl ErrEmptyHash)"
proof (intro conjI impI)
  show "CredentialSign_sign env cfg None cret = (Inl ErrEmptyKey, cret)"
    by (simp add: CredentialSign_sign_def)
  show "EphemeralSign_sign env cfg None esig = (Inl ErrEmptyKey, esig)"
    by (simp add: EphemeralSign_sign_def)
  show "CredentialSign_sign env cfg (Some key) cret = (Inl ErrEmptyHash, cret)"
    if "CredentialSign_hash env cret = zero_hash"
    using that by (simp add: CredentialSign_sign_def)
  show "EphemeralSign_sign env cfg (Some key) esig = (Inl ErrEmptyHash, esig)"
    if "EphemeralSign_hash env esig = Inr zero_hash"
    using that by (simp add: EphemeralSign_sign_def)
  have c: "fst (CredentialSign_sign env cfg (Some key) cret) \<noteq> Inl e"
    if "CredentialSign_hash env cret \<noteq> zero_hash" "e = ErrEmptyKey \<or> e = ErrEmptyHash" for e
    using that get_error [of cfg "Sig cret"]
    by (auto simp add: CredentialSign_sign_def Let_def split: sum.splits)
  show "fst (CredentialSign_sign env cfg (Some key) cret) \<noteq> Inl ErrEmptyKey"
    if "CredentialSign_hash env cret \<noteq> zero_hash" using c [OF that] by simp
  show "fst (CredentialSign_sign env cfg (Some key) cret) \<noteq> Inl ErrEmptyHash"
    if "CredentialSign_hash env cret \<noteq> zero_hash" using c [OF that] by simp
  have d: "fst (EphemeralSign_sign env cfg (Some key) esig) \<noteq> Inl e"
    if "EphemeralSign_hash env esig = Inr h \<and> h \<noteq> zero_hash"
       "e = ErrEmptyKey \<or> e = ErrEmptyHash" for e
    using that get_error [of cfg "ESig esig"]
    by (auto simp add: EphemeralSign_sign_def Let_def split: sum.splits)
  show "fst (EphemeralSign_sign env cfg (Some key) esig) \<noteq> Inl ErrEmptyKey"
    if "EphemeralSign_hash env esig = Inr h \<and> h \<noteq> zero_hash" using d [OF that] by simp
  show "fst (EphemeralSign_sign env cfg (Some key) esig) \<noteq> Inl ErrEmptyHash"
    if "EphemeralSign_hash env esig = Inr h \<and> h \<noteq> zero_hash" using d [OF that] by simp
qed

theorem sign_error_branches_witness:
  "CredentialSign_sign sample_crypto (derived_config 1) None \<lparr>Sig = init, Round = 1, Step = 1\<rparr>
     = (Inl ErrEmptyKey, \<lparr>Sig = init, Round = 1, Step = 1\<rparr>)
   \<and> EphemeralSign_sign sample_crypto (derived_config 1) None
       \<lparr>ESig = init, round = 1, step = 1, val = Some [1]\<rparr>
     = (Inl ErrEmptyKey, \<lparr>ESig = init, round = 1, step = 1, val = Some [1]\<rparr>)
   \<and> CredentialSign_sign sample_crypto (derived_config 1) (Some 7)
       \<lparr>Sig = init, Round = 0, Step = 0\<rparr>
     = (Inl ErrEmptyHash, \<lparr>Sig = init, Round = 0, Step = 0\<rparr>)
   \<and> EphemeralSign_sign sample_crypto (derived_config 1) (Some 7)
       \<lparr>ESig = init, round = 0, step = 0, val = Some [1]\<rparr>
     = (Inl ErrEmptyHash, \<lparr>ESig = init, round = 0, step = 0, val = Some [1]\<rparr>)
   \<and> fst (CredentialSign_sign sample_crypto (derived_config 1) (Some 7)
            \<lparr>Sig = init, Round = 1, Step = 1\<rparr>) \<noteq> Inl ErrEmptyKey
   \<and> fst (CredentialSign_sign sample_crypto (derived_config 1) (Some 7)
            \<lparr>Sig = init, Round = 1, Step = 1\<rparr>) \<noteq> Inl ErrEmptyHash
   \<and> fst (EphemeralSign_sign sample_crypto (derived_config 1) (Some 7)
            \<lparr>ESig = init, round = 1, step = 1, val = Some [1]\<rparr>) \<noteq> Inl ErrEmptyKey
   \<and> fst (EphemeralSign_sign sample_crypto (derived_config 1) (Some 7)
            \<lparr>ESig = init, round = 1, step = 1, val = Some [1]\<rparr>) \<noteq> Inl ErrEmptyHash"
proof -
  have c0: "CredentialSign_hash sample_crypto \<lparr>Sig = init, Round = 0, Step = 0\<rparr> = zero_hash"
    by (simp add: CredentialSign_hash_def sample_crypto_def sample_MsgpHash_def)
  have e0: "EphemeralSign_hash sample_crypto \<lparr>ESig = init, round = 0, step = 0, val = Some [1]\<rparr>
            = Inr zero_hash"
    by (simp add: EphemeralSign_hash_def sample_crypto_def sample_MsgpHash_def)
  have c1: "CredentialSign_hash sample_crypto \<lparr>Sig = init, Round = 1, Step = 1\<rparr> \<noteq> zero_hash"
    by (simp add: CredentialSign_hash_def sample_crypto_def sample_MsgpHash_def zero_hash_def
        digest_last)
  have e1: "EphemeralSign_hash sample_crypto \<lparr>ESig = init, round = 1, step = 1, val = Some [1]\<rparr>
            = Inr (replicate 31 0 @ [2]) \<and> replicate 31 0 @ [2] \<noteq> zero_hash"
    by (simp add: EphemeralSign_hash_def sample_crypto_def sample_MsgpHash_def zero_hash_def
        digest_last)
  show ?thesis
    using sign_error_branches [of sample_crypto "derived_config 1"
        "\<lparr>Sig = init, Round = 0, Step = 0\<rparr>"
        "\<lparr>ESig = init, round = 0, step = 0, val = Some [1]\<rparr>" 7 zero_hash]
      sign_error_branches [of sample_crypto "derived_config 1"
        "\<lparr>Sig = init, Round = 1, Step = 1\<rparr>"
        "\<lparr>ESig = init, round = 1, step = 1, val = Some [1]\<rparr>" 7 "replicate 31 0 @ [2]"]
      c0 e0 c1 e1
    by simp
qed

section \<open>The errors of sender\<close>

lemma big_Cmp_0_iff: "big_Cmp x y = 0 \<longleftrightarrow> x = y"
  by (simp add: big_Cmp_def)

lemma get_stored:
  assumes "chainId cfg = Some c" and "checkObj s = None" and "length sig = 65"
    and "sig ! 64 \<le> 1"
  shows "get cfg s sig = Inr \<lparr>R = Some (SetBytes (take 32 sig)),
           S = Some (SetBytes (take 32 (drop 32 sig))),
           V = Some (if c = 0 then uint (sig ! 64) + 27
                     else uint (sig ! 64) + 35 + chainIdMul cfg)\<rparr>"
proof -
  have le: "sig ! 64 \<le> 220" "sig ! 64 \<le> 228" using assms(4) by (simp_all add: word_le_def)
  show ?thesis
    using assms(1-3) le
    by (simp add: get_def Let_def Sign_def uint_bit_plus uint_bit_plus27 SetBytes_single)
qed

lemma deriveChainId_stored:
  assumes "0 \<le> c" and "(b::byte) \<le> 1"
  shows "deriveChainId (if c = 0 then uint b + 27 else uint b + 35 + c * 2) = c"
proof (cases "c = 0")
  case True
  with byte_le_1 [OF assms(2)] show ?thesis
    by (auto simp add: deriveChainId_27_28)
next
  case False
  have b01: "0 \<le> uint b" "uint b \<le> 1" using assms(2) by (simp_all add: word_le_def)
  from False assms(1) have "0 < c" by simp
  then have "deriveChainId (uint b + 35 + c * 2) = c"
    using b01 by (rule deriveChainId_biased)
  with False show ?thesis by simp
qed

text \<open>
  C2, as amended. For an initialised credential and a non-nil configured chain id \<open>c\<close>, \<open>sender\<close>
  returns an error and no address in each of these cases:
  \<^item> the chain id that V encodes (\<open>deriveChainId\<close>) is not \<open>c\<close>: \<open>ErrInvalidChainId\<close>;
  \<^item> the chain id matches and the unbiased V is wider than 8 bits, or its byte, R and
    S do not pass \<open>ValidateSignatureValues\<close>: \<open>ErrInvalidSig\<close>;
  \<^item> validation passes and \<open>crypto.Ecrecover\<close> fails: the error of \<open>Ecrecover\<close>;
  \<^item> \<open>Ecrecover\<close> returns an empty key or one that does not start with 4: the error
    "invalid public key".
  So a signature that \<open>get\<close> stores under a chain id \<open>a\<close> (not negative, recovery bit
  0 or 1) is refused with \<open>ErrInvalidChainId\<close> under any other chain id \<open>c\<close>.
\<close>

theorem sender_errors:
  assumes "chainId cfg = Some c"
    and "R (Sig cret) = Some r" and "S (Sig cret) = Some sv" and "V (Sig cret) = Some v"
  shows "(deriveChainId v \<noteq> c \<longrightarrow>
            CredentialSign_sender env cfg cret = Inl ErrInvalidChainId)
       \<and> (deriveChainId v = c
            \<and> (8 < BitLen (unbias cfg c v)
                \<or> \<not> ValidateSignatureValues env (ucast (Uint64 (unbias cfg c v))) r sv True) \<longrightarrow>
            CredentialSign_sender env cfg cret = Inl ErrInvalidSig)
       \<and> (deriveChainId v = c \<and> BitLen (unbias cfg c v) \<le> 8
            \<and> ValidateSignatureValues env (ucast (Uint64 (unbias cfg c v))) r sv True
            \<and> length (Bytes r) \<le> 32 \<and> length (Bytes sv) \<le> 32
            \<and> Ecrecover env (CredentialSign_hash env cret)
                  (replicate (32 - length (Bytes r)) 0 @ Bytes r
                   @ replicate (32 - length (Bytes sv)) 0 @ Bytes sv
                   @ [ucast (Uint64 (unbias cfg c v))]) = Inl e \<longrightarrow>
            CredentialSign_sender env cfg cret = Inl (ErrEcrecover e))
       \<and> (deriveChainId v = c \<and> BitLen (unbias cfg c v) \<le> 8
            \<and> ValidateSignatureValues env (ucast (Uint64 (unbias cfg c v))) r sv True
            \<and> length (Bytes r) \<le> 32 \<and> length (Bytes sv) \<le> 32
            \<and> Ecrecover env (CredentialSign_hash env cret)
                  (replicate (32 - length (Bytes r)) 0 @ Bytes r
                   @ replicate (32 - length (Bytes sv)) 0 @ Bytes sv
                   @ [ucast (Uint64 (unbias cfg c v))]) = Inr pub
            \<and> (pub = [] \<or> hd pub \<noteq> 4) \<longrightarrow>
            CredentialSign_sender env cfg cret = Inl ErrInvalidPublicKey)
       \<and> (0 \<le> a \<and> a \<noteq> c \<and> checkObj s0 = None \<and> length sig = 65 \<and> sig ! 64 \<le> 1 \<longrightarrow>
            (\<exists>s'. get (derived_config a) s0 sig = Inr s'
                  \<and> CredentialSign_sender env cfg (cret\<lparr>Sig := s'\<rparr>) = Inl ErrInvalidChainId))"
proof -
  have init: "checkObj (Sig cret) = None" using assms(2-4) by (simp add: checkObj_def)
  have snd: "CredentialSign_sender env cfg cret =
               (if deriveChainId v \<noteq> c then Inl ErrInvalidChainId
                else recoverPlain env (CredentialSign_hash env cret) r sv (unbias cfg c v) True)"
    using assms init by (simp add: CredentialSign_sender_def Let_def big_Cmp_0_iff)
  have a1: "CredentialSign_sender env cfg cret = Inl ErrInvalidChainId" if "deriveChainId v \<noteq> c"
    using that snd by simp
  have a2: "CredentialSign_sender env cfg cret = Inl ErrInvalidSig"
    if "deriveChainId v = c \<and> (8 < BitLen (unbias cfg c v)
          \<or> \<not> ValidateSignatureValues env (ucast (Uint64 (unbias cfg c v))) r sv True)"
    using that snd by (auto simp add: recoverPlain_def Let_def)
  have rp: "recoverPlain env h r sv vb True =
              (case Ecrecover env h (replicate (32 - length (Bytes r)) 0 @ Bytes r
                   @ replicate (32 - length (Bytes sv)) 0 @ Bytes sv @ [ucast (Uint64 vb)]) of
                 Inl e \<Rightarrow> Inl (ErrEcrecover e)
               | Inr pub \<Rightarrow>
                   if length pub = 0 then Inl ErrInvalidPublicKey
                   else if hd pub \<noteq> 4 then Inl ErrInvalidPublicKey
                   else if length (Keccak256 env (tl pub)) < 12 then Inl PanicSliceBounds
                   else Inr (copy_array 20 (drop 12 (Keccak256 env (tl pub)))))"
    if "BitLen vb \<le> 8" "ValidateSignatureValues env (ucast (Uint64 vb)) r sv True"
       "length (Bytes r) \<le> 32" "length (Bytes sv) \<le> 32" for h vb
    using that by (simp add: recoverPlain_def Let_def sig_layout not_less [symmetric]
        split: sum.splits)
  have a3: "CredentialSign_sender env cfg cret = Inl (ErrEcrecover e)"
    if "deriveChainId v = c \<and> BitLen (unbias cfg c v) \<le> 8
            \<and> ValidateSignatureValues env (ucast (Uint64 (unbias cfg c v))) r sv True
            \<and> length (Bytes r) \<le> 32 \<and> length (Bytes sv) \<le> 32
            \<and> Ecrecover env (CredentialSign_hash env cret)
                  (replicate (32 - length (Bytes r)) 0 @ Bytes r
                   @ replicate (32 - length (Bytes sv)) 0 @ Bytes sv
                   @ [ucast (Uint64 (unbias cfg c v))]) = Inl e"
    using that snd by (simp add: rp)
  have a4: "CredentialSign_sender env cfg cret = Inl ErrInvalidPublicKey"
    if "deriveChainId v = c \<and> BitLen (unbias cfg c v) \<le> 8
            \<and> ValidateSignatureValues env (ucast (Uint64 (unbias cfg c v))) r sv True
            \<and> length (Bytes r) \<le> 32 \<and> length (Bytes sv) \<le> 32
            \<and> Ecrecover env (CredentialSign_hash env cret)
                  (replicate (32 - length (Bytes r)) 0 @ Bytes r
                   @ replicate (32 - length (Bytes sv)) 0 @ Bytes sv
                   @ [ucast (Uint64 (unbias cfg c v))]) = Inr pub
            \<and> (pub = [] \<or> hd pub \<noteq> 4)"
    using that snd by (auto simp add: rp)
  have a5: "\<exists>s'. get (derived_config a) s0 sig = Inr s'
                  \<and> CredentialSign_sender env cfg (cret\<lparr>Sig := s'\<rparr>) = Inl ErrInvalidChainId"
    if h: "0 \<le> a \<and> a \<noteq> c \<and> checkObj s0 = None \<and> length sig = 65 \<and> sig ! 64 \<le> 1"
  proof -
    let ?v = "if a = 0 then uint (sig ! 64) + 27 else uint (sig ! 64) + 35 + a * 2"
    let ?s = "\<lparr>R = Some (SetBytes (take 32 sig)), S = Some (SetBytes (take 32 (drop 32 sig))),
               V = Some ?v\<rparr>"
    have "chainId (derived_config a) = Some a" by (simp add: derived_config_def)
    from get_stored [OF this, of s0 sig] h
    have g: "get (derived_config a) s0 sig = Inr ?s" by (simp add: derived_config_def)
    have "deriveChainId ?v = a" using h by (intro deriveChainId_stored) simp_all
    with h have "deriveChainId ?v \<noteq> c" by simp
    then have "CredentialSign_sender env cfg (cret\<lparr>Sig := ?s\<rparr>) = Inl ErrInvalidChainId"
      using assms(1) by (simp add: CredentialSign_sender_def checkObj_def Let_def big_Cmp_0_iff)
    with g show ?thesis by blast
  qed
  show ?thesis using a1 a2 a3 a4 a5 by blast
qed

theorem sender_errors_witness:
  "CredentialSign_sender sample_crypto (derived_config 2)
      \<lparr>Sig = \<lparr>R = Some 7, S = Some 1, V = Some 37\<rparr>, Round = 1, Step = 1\<rparr>
     = Inl ErrInvalidChainId
   \<and> CredentialSign_sender sample_crypto (derived_config 1)
      \<lparr>Sig = \<lparr>R = Some 0, S = Some 1, V = Some 37\<rparr>, Round = 1, Step = 1\<rparr>
     = Inl ErrInvalidSig
   \<and> CredentialSign_sender (sample_crypto\<lparr>Ecrecover := \<lambda>hash sig. Inl ''recovery failed''\<rparr>)
      (derived_config 1)
      \<lparr>Sig = \<lparr>R = Some 7, S = Some 1, V = Some 37\<rparr>, Round = 1, Step = 1\<rparr>
     = Inl (ErrEcrecover ''recovery failed'')
   \<and> CredentialSign_sender (sample_crypto\<lparr>Ecrecover := \<lambda>hash sig. Inr (2 # take 32 sig)\<rparr>)
      (derived_config 1)
      \<lparr>Sig = \<lparr>R = Some 7, S = Some 1, V = Some 37\<rparr>, Round = 1, Step = 1\<rparr>
     = Inl ErrInvalidPublicKey
   \<and> get (derived_config 1) init (replicate 31 0 @ [7] @ replicate 31 0 @ [1] @ [0])
     = Inr \<lparr>R = Some 7, S = Some 1, V = Some 37\<rparr>"
proof -
  define cret where "cret = \<lparr>Sig = \<lparr>R = Some 7, S = Some 1, V = Some 37\<rparr>, Round = 1, Step = 1\<rparr>"
  define bad where "bad = \<lparr>Sig = \<lparr>R = Some 0, S = Some 1, V = Some 37\<rparr>, Round = 1, Step = 1\<rparr>"
  define sig :: "byte list" where "sig = replicate 31 0 @ [7] @ replicate 31 0 @ [1] @ [0]"
  define env3 where "env3 = sample_crypto\<lparr>Ecrecover := \<lambda>hash sig. Inl ''recovery failed''\<rparr>"
  define env4 where "env4 = sample_crypto\<lparr>Ecrecover := \<lambda>hash sig. Inr (2 # take 32 sig)\<rparr>"
  have d: "deriveChainId 37 = 1" using deriveChainId_biased [of 1 0] by simp
  have u: "unbias (derived_config 1) 1 37 = 0"
    by (simp add: unbias_def derived_config_def Sign_def)
  have bl: "BitLen 0 \<le> 8" by (simp add: BitLen_le)
  have uz: "(ucast (Uint64 0) :: byte) = 0" by (simp add: Uint64_def)
  have b7: "Bytes 7 = [7]" and b1: "Bytes 1 = [1]" by (simp_all add: Bytes_small)
  have cf: "chainId (derived_config 1) = Some 1" "chainId (derived_config 2) = Some 2"
    by (simp_all add: derived_config_def)
  have w1: "CredentialSign_sender sample_crypto (derived_config 2) cret = Inl ErrInvalidChainId"
    using sender_errors [where cfg = "derived_config 2" and c = 2 and cret = cret and r = 7
        and sv = 1 and v = 37 and env = sample_crypto, OF cf(2)] d
    by (simp add: cret_def)
  have w2: "CredentialSign_sender sample_crypto (derived_config 1) bad = Inl ErrInvalidSig"
    using sender_errors [where cfg = "derived_config 1" and c = 1 and cret = bad and r = 0
        and sv = 1 and v = 37 and env = sample_crypto, OF cf(1)] d
    by (simp add: bad_def u uz sample_crypto_def)
  have w3: "CredentialSign_sender env3 (derived_config 1) cret
            = Inl (ErrEcrecover ''recovery failed'')"
    using sender_errors [where cfg = "derived_config 1" and c = 1 and cret = cret and r = 7
        and sv = 1 and v = 37 and env = env3 and e = "''recovery failed''", OF cf(1)] d bl
    by (simp add: cret_def u uz b7 b1 env3_def sample_crypto_def)
  have w4: "CredentialSign_sender env4 (derived_config 1) cret = Inl ErrInvalidPublicKey"
    using sender_errors [where cfg = "derived_config 1" and c = 1 and cret = cret and r = 7
        and sv = 1 and v = 37 and env = env4
        and pub = "2 # replicate 31 0 @ [7]", OF cf(1)] d bl
    by (simp add: cret_def u uz b7 b1 env4_def sample_crypto_def)
  have g: "get (derived_config 1) init sig = Inr \<lparr>R = Some 7, S = Some 1, V = Some 37\<rparr>"
    by (simp add: get_def derived_config_def checkObj_def init_def Sign_def sig_def
        SetBytes_pad SetBytes_single nth_append)
  have w5: "CredentialSign_sender sample_crypto (derived_config 2)
              (cret\<lparr>Sig := \<lparr>R = Some 7, S = Some 1, V = Some 37\<rparr>\<rparr>) = Inl ErrInvalidChainId"
    using sender_errors [where cfg = "derived_config 2" and c = 2 and cret = cret and r = 7
        and sv = 1 and v = 37 and env = sample_crypto and a = 1 and ?s0.0 = init and sig = sig,
        OF cf(2)]
    unfolding g by (simp add: cret_def checkObj_def init_def sig_def nth_append)
  show ?thesis
    using w1 w2 w3 w4 w5 g
    unfolding cret_def bad_def env3_def env4_def sig_def by simp
qed

text \<open>
  C2 as stated asks that a signature produced under any chain id A is refused under any
  other chain id B. Under the chain id -4 and the recovery bit 0, \<open>sign\<close> stores
  \<open>V = 0 + 35 - 8 = 27\<close>, the V of a signature without chain id: under the chain id 0
  \<open>sender\<close> passes the chain-id test, removes 27 and recovers the address.
\<close>

theorem replay_negative_chain_id_counterexample:
  "Sig (snd (CredentialSign_sign sample_crypto (derived_config (- 4)) (Some 7)
               \<lparr>Sig = init, Round = 1, Step = 1\<rparr>))
     = \<lparr>R = Some 7, S = Some 1, V = Some 27\<rparr>
   \<and> CredentialSign_sender sample_crypto (derived_config 0)
       (snd (CredentialSign_sign sample_crypto (derived_config (- 4)) (Some 7)
               \<lparr>Sig = init, Round = 1, Step = 1\<rparr>))
     = Inr (replicate 19 0 @ [7])"
proof -
  define cret where "cret = \<lparr>Sig = init, Round = 1, Step = 1\<rparr>"
  define sig :: "byte list" where "sig = replicate 31 0 @ [7] @ replicate 31 0 @ [1] @ [0]"
  define pub :: "byte list" where "pub = 4 # replicate 31 0 @ [7]"
  define s' where "s' = \<lparr>R = Some 7, S = Some 1, V = Some 27\<rparr>"
  have h: "CredentialSign_hash sample_crypto cret = replicate 31 0 @ [1]"
    by (simp add: CredentialSign_hash_def sample_crypto_def sample_MsgpHash_def cret_def)
  have h0: "CredentialSign_hash sample_crypto cret \<noteq> zero_hash"
    unfolding h by (simp add: zero_hash_def digest_last)
  have sg: "crypto_Sign sample_crypto (CredentialSign_hash sample_crypto cret) 7 = Inr sig"
    by (simp add: sample_crypto_def sig_def)
  have len: "length sig = 65" by (simp add: sig_def)
  have n: "sig ! 64 = 0" by (simp add: sig_def nth_append)
  have tr: "take 32 sig = replicate 31 0 @ [7]" by (simp add: sig_def)
  have ts: "take 32 (drop 32 sig) = replicate 31 0 @ [1]" by (simp add: sig_def)
  have r7: "SetBytes (take 32 sig) = 7" and s1: "SetBytes (take 32 (drop 32 sig)) = 1"
    unfolding tr ts by (simp_all add: SetBytes_pad SetBytes_single)
  have g: "get (derived_config (- 4)) (Sig cret) sig = Inr s'"
    using len n r7 s1
    by (simp add: get_def derived_config_def checkObj_def init_def Sign_def cret_def s'_def)
  have sgn: "snd (CredentialSign_sign sample_crypto (derived_config (- 4)) (Some 7) cret)
             = cret\<lparr>Sig := s'\<rparr>"
    using h0 sg g by (simp add: CredentialSign_sign_def Let_def)
  have val: "ValidateSignatureValues sample_crypto (sig ! 64) (SetBytes (take 32 sig))
               (SetBytes (take 32 (drop 32 sig))) True"
    unfolding r7 s1 n by (simp add: sample_crypto_def)
  have rc: "Ecrecover sample_crypto (CredentialSign_hash sample_crypto cret) sig = Inr pub"
    using tr by (simp add: sample_crypto_def pub_def)
  have k: "Keccak256 sample_crypto (tl pub) = replicate 31 0 @ [7]"
    by (simp add: sample_crypto_def pub_def copy_array_def)
  have rp: "recoverPlain sample_crypto (CredentialSign_hash sample_crypto cret) 7 1 0 True
            = Inr (replicate 19 0 @ [7])"
    using recoverPlain_rebuilt [of sig sample_crypto "CredentialSign_hash sample_crypto cret" pub,
        OF len val rc]
    unfolding r7 s1 n k by (simp add: pub_def copy_array_def)
  have snd: "CredentialSign_sender sample_crypto (derived_config 0) (cret\<lparr>Sig := s'\<rparr>)
             = Inr (replicate 19 0 @ [7])"
    using rp
    by (simp add: CredentialSign_sender_def derived_config_def checkObj_def s'_def Let_def
        deriveChainId_27_28 big_Cmp_def unbias_def Sign_def hash_Sig_update)
  show ?thesis
    using sgn snd unfolding cret_def s'_def by simp
qed

section \<open>Ordering credentials by the digest of their signature\<close>







end
